theory Spec2Isabelle
  imports Main "HOL-Library.Word"
begin

unbundle bit_operations_syntax

section \<open>The image-file writer (thirdparty/tinydng/tiny_dng_writer.cpp)\<close>

subsection \<open>Platform, bytes and object representations\<close>

text \<open>
  \<open>size_t\<close> is taken to be at least as wide as every length that occurs and is
  modelled by \<open>nat\<close>; \<open>unsigned short\<close>, \<open>unsigned int\<close> and \<open>unsigned long\<close> are
  16, 32 and 64 bits wide. The byte order of the host is an argument of the functions
  that copy integers to and from raw memory.
\<close>

type_synonym byte = "8 word"

text \<open>What ends a run of the program instead of a return value.\<close>

datatype abort = AssertionFailed | OutOfBounds | NullDereference

definition store_bytes :: "bool \<Rightarrow> nat \<Rightarrow> 'a::len word \<Rightarrow> byte list" where
  "store_bytes be n v =
     (let le = map (\<lambda>i. ucast (drop_bit (8 * i) v)) [0..<n]
      in if be then rev le else le)"

fun load_le :: "byte list \<Rightarrow> 'a::len word" where
  "load_le [] = 0"
| "load_le (b # bs) = ucast b OR push_bit 8 (load_le bs)"

definition load_bytes :: "bool \<Rightarrow> byte list \<Rightarrow> 'a::len word" where
  "load_bytes be bs = load_le (if be then rev bs else bs)"

text \<open>\<open>swap2\<close>, \<open>swap4\<close>, \<open>swap8\<close>: \<open>dst[i] = src[k - 1 - i]\<close> on the bytes of the object.\<close>

definition swap2 :: "bool \<Rightarrow> 16 word \<Rightarrow> 16 word" where
  "swap2 be val = (let src = store_bytes be 2 val in load_bytes be [src ! 1, src ! 0])"

definition swap4 :: "bool \<Rightarrow> 32 word \<Rightarrow> 32 word" where
  "swap4 be val =
     (let src = store_bytes be 4 val in load_bytes be [src ! 3, src ! 2, src ! 1, src ! 0])"

definition Write1 :: "byte \<Rightarrow> byte list \<Rightarrow> byte list" where
  "Write1 c out = out @ [c]"

definition Write2 :: "bool \<Rightarrow> 16 word \<Rightarrow> byte list \<Rightarrow> bool \<Rightarrow> byte list" where
  "Write2 be c out swap_endian =
     (let value = (if swap_endian then swap2 be c else c) in out @ store_bytes be 2 value)"

definition Write4 :: "bool \<Rightarrow> 32 word \<Rightarrow> byte list \<Rightarrow> bool \<Rightarrow> byte list" where
  "Write4 be c out swap_endian =
     (let value = (if swap_endian then swap4 be c else c) in out @ store_bytes be 4 value)"

text \<open>Decimal output of \<open>operator<<\<close> and \<open>std::to_string\<close> on an unsigned integer.\<close>

fun to_dec :: "nat \<Rightarrow> string" where
  "to_dec n =
     (if n < 10 then [''0123456789'' ! n]
      else to_dec (n div 10) @ [''0123456789'' ! (n mod 10)])"

declare to_dec.simps [simp del]

definition nl :: string where
  "nl = [CHR 0x0A]"

subsection \<open>Tags\<close>

record IFDTag =
  tag :: "16 word"
  type :: "16 word"
  count :: "32 word"
  offset_or_value :: "32 word"

text \<open>
  Three facts about the build are parameters of the model: the byte order of the host
  (\<open>IsBigEndian()\<close>), whether \<open>assert\<close> is compiled out (\<open>NDEBUG\<close>), and what
  \<open>std::sort(tags.begin(), tags.end(), IFDComparator)\<close> leaves in \<open>tags\<close>: the
  standard promises a permutation in ascending order of \<open>tag\<close> (\<open>std_sort_ok\<close>) and
  leaves the order of tags with equal numbers to the implementation.
\<close>

record platform =
  host_big_endian :: bool
  ndebug :: bool
  std_sort :: "IFDTag list \<Rightarrow> IFDTag list"

definition std_sort_ok :: "platform \<Rightarrow> bool" where
  "std_sort_ok pf =
     (\<forall>tags. sorted (map tag (std_sort pf tags))
             \<and> (\<forall>t. count_list (std_sort pf tags) t = count_list tags t))"

definition TIFF_ASCII :: "16 word" where "TIFF_ASCII = 2"
definition TIFF_SHORT :: "16 word" where "TIFF_SHORT = 3"
definition TIFF_LONG :: "16 word" where "TIFF_LONG = 4"

definition TIFFTAG_BITS_PER_SAMPLE :: "16 word" where "TIFFTAG_BITS_PER_SAMPLE = 258"
definition TIFFTAG_IMAGEDESCRIPTION :: "16 word" where "TIFFTAG_IMAGEDESCRIPTION = 270"
definition TIFFTAG_STRIP_OFFSET :: "16 word" where "TIFFTAG_STRIP_OFFSET = 273"
definition TIFFTAG_SAMPLES_PER_PIXEL :: "16 word" where "TIFFTAG_SAMPLES_PER_PIXEL = 277"
definition TIFFTAG_STRIP_BYTE_COUNTS :: "16 word" where "TIFFTAG_STRIP_BYTE_COUNTS = 279"
definition TIFFTAG_SOFTWARE :: "16 word" where "TIFFTAG_SOFTWARE = 305"
definition TIFFTAG_UNIQUE_CAMERA_MODEL :: "16 word" where "TIFFTAG_UNIQUE_CAMERA_MODEL = 50708"

definition kHeaderSize :: nat where
  "kHeaderSize = 8"

definition typesize_table :: "nat list" where
  "typesize_table = [1, 1, 1, 2, 4, 8, 1, 1, 2, 4, 8, 4, 8, 4]"

text \<open>\<open>count * typesize_table[type < 14 ? type : 0]\<close>, computed in \<open>size_t\<close>.\<close>

definition tag_len :: "16 word \<Rightarrow> 32 word \<Rightarrow> nat" where
  "tag_len ty cnt = unat cnt * (typesize_table ! (if unat ty < 14 then unat ty else 0))"

text \<open>
  \<open>WriteTIFFTag\<close>. The pointer \<open>data\<close> is the list of bytes readable from it; reading
  past them is \<open>OutOfBounds\<close>. The stream pointer \<open>data_out\<close> is \<open>None\<close> when null;
  \<open>tellp()\<close> of an append-only stream is its length. The branch \<open>assert(0)\<close> is reached
  when the length is 0 or 3: with \<open>NDEBUG\<close> the tag keeps the value 0.
\<close>

definition WriteTIFFTag ::
  "platform \<Rightarrow> 16 word \<Rightarrow> 16 word \<Rightarrow> 32 word \<Rightarrow> byte list \<Rightarrow> IFDTag list \<Rightarrow> byte list option
   \<Rightarrow> abort + (bool \<times> IFDTag list \<times> byte list option)" where
  "WriteTIFFTag pf tg ty cnt data tags_out data_out =
     (let be = host_big_endian pf;
          ifd = \<lparr>tag = tg, type = ty, count = cnt, offset_or_value = 0\<rparr>;
          len = tag_len ty cnt
      in if len > 4 then
           (case data_out of
              None \<Rightarrow> if ndebug pf then Inr (False, tags_out, data_out) else Inl AssertionFailed
            | Some os \<Rightarrow>
                if length data < len then Inl OutOfBounds
                else Inr (True,
                          tags_out @ [ifd\<lparr>offset_or_value := of_nat (length os) + of_nat kHeaderSize\<rparr>],
                          Some (os @ take len data)))
         else if len = 1 then
           (if length data < 1 then Inl OutOfBounds
            else Inr (True,
                      tags_out @ [ifd\<lparr>offset_or_value :=
                         load_bytes be (take 1 data @ drop 1 (store_bytes be 4 (0 :: 32 word)))\<rparr>],
                      data_out))
         else if len = 2 then
           (if length data < 2 then Inl OutOfBounds
            else let value = (load_bytes be (take 2 data) :: 16 word)
                 in Inr (True,
                      tags_out @ [ifd\<lparr>offset_or_value :=
                         load_bytes be (store_bytes be 2 value @ drop 2 (store_bytes be 4 (0 :: 32 word)))\<rparr>],
                      data_out))
         else if len = 4 then
           (if length data < 4 then Inl OutOfBounds
            else Inr (True, tags_out @ [ifd\<lparr>offset_or_value := load_bytes be (take 4 data)\<rparr>],
                      data_out))
         else if ndebug pf then Inr (True, tags_out @ [ifd], data_out)
         else Inl AssertionFailed)"

subsection \<open>DNGImage\<close>

record DNGImage =
  data_os :: "byte list"
  swap_endian :: bool
  dng_big_endian :: bool
  num_fields :: "16 word"
  samples_per_pixels :: "32 word"
  bits_per_samples :: "16 word list"
  data_strip_offset :: nat
  data_strip_bytes :: nat
  err :: string
  ifd_tags :: "IFDTag list"

text \<open>The constructor \<open>DNGImage::DNGImage()\<close>.\<close>

definition DNGImage_new :: "platform \<Rightarrow> DNGImage" where
  "DNGImage_new pf =
     \<lparr>data_os = [], swap_endian = (host_big_endian pf \<noteq> True), dng_big_endian = True,
      num_fields = 0, samples_per_pixels = 0, bits_per_samples = [],
      data_strip_offset = 0, data_strip_bytes = 0, err = [], ifd_tags = []\<rparr>"

text \<open>
  Every setter calls \<open>WriteTIFFTag(..., &ifd_tags_, &data_os_)\<close> and, when that
  returns true, increments \<open>num_fields_\<close>; \<open>on_fail\<close> is what the setter appends to
  \<open>err_\<close> before it returns false.
\<close>

definition write_tag ::
  "platform \<Rightarrow> DNGImage \<Rightarrow> 16 word \<Rightarrow> 16 word \<Rightarrow> 32 word \<Rightarrow> byte list \<Rightarrow> string
   \<Rightarrow> abort + (bool \<times> DNGImage)" where
  "write_tag pf img tg ty cnt data on_fail =
     (case WriteTIFFTag pf tg ty cnt data (ifd_tags img) (Some (data_os img)) of
        Inl a \<Rightarrow> Inl a
      | Inr (ret, tags', os') \<Rightarrow>
          (let img1 = img\<lparr>ifd_tags := tags',
                          data_os := (case os' of Some d \<Rightarrow> d | None \<Rightarrow> data_os img)\<rparr>
           in if \<not> ret then Inr (False, img1\<lparr>err := err img1 @ on_fail\<rparr>)
              else Inr (True, img1\<lparr>num_fields := num_fields img1 + 1\<rparr>)))"

definition SetSamplesPerPixel :: "platform \<Rightarrow> DNGImage \<Rightarrow> 16 word \<Rightarrow> abort + (bool \<times> DNGImage)" where
  "SetSamplesPerPixel pf img value =
     (if value > 4 then
        Inr (False, img\<lparr>err := err img
               @ ''Samples per pixel must be less than or equal to 4, but got ''
               @ to_dec (unat value) @ ''.'' @ nl\<rparr>)
      else
        (case write_tag pf img TIFFTAG_SAMPLES_PER_PIXEL TIFF_SHORT 1
                (store_bytes (host_big_endian pf) 2 value)
                (''Failed to write `TIFFTAG_SAMPLES_PER_PIXEL` tag.'' @ nl) of
           Inl a \<Rightarrow> Inl a
         | Inr (ret, img1) \<Rightarrow>
             if \<not> ret then Inr (False, img1)
             else Inr (True, img1\<lparr>samples_per_pixels := ucast value\<rparr>)))"

text \<open>
  The loop of \<open>SetBitsPerSample\<close> over \<open>values\<close>: \<open>None\<close> when a value differs from
  \<open>bps\<close>, otherwise the copied values, byte-swapped when \<open>swap_endian_\<close>.
\<close>

fun bps_loop :: "bool \<Rightarrow> bool \<Rightarrow> 16 word \<Rightarrow> 16 word list \<Rightarrow> 16 word list option" where
  "bps_loop be swp bps [] = Some []"
| "bps_loop be swp bps (v # values) =
     (if bps \<noteq> v then None
      else map_option ((#) (if swp then swap2 be v else v)) (bps_loop be swp bps values))"

text \<open>
  \<open>SetBitsPerSample()\<close> takes no argument: \<open>num_samples = 1\<close> and
  \<open>values[1] = {16}\<close> are constants of its body.
\<close>

definition SetBitsPerSample :: "platform \<Rightarrow> DNGImage \<Rightarrow> abort + (bool \<times> DNGImage)" where
  "SetBitsPerSample pf img =
     (let num_samples = (1 :: 32 word);
          values = [16 :: 16 word];
          be = host_big_endian pf
      in if samples_per_pixels img = 0 then
           Inr (False, img\<lparr>err := err img
                  @ ''SetSamplesPerPixel() must be called before SetBitsPerSample().'' @ nl\<rparr>)
         else if num_samples = 0 \<or> num_samples > 4 then
           Inr (False, img\<lparr>err := err img
                  @ ''Invalid number of samples: '' @ to_dec (unat num_samples) @ nl\<rparr>)
         else if num_samples \<noteq> samples_per_pixels img then
           Inr (False, img\<lparr>err := err img
                  @ ''Samples per pixel mismatch. '' @ to_dec (unat num_samples)
                  @ '' is given for SetBitsPerSample(), but SamplesPerPixel is set to ''
                  @ to_dec (unat (samples_per_pixels img)) @ nl\<rparr>)
         else
           (case bps_loop be (swap_endian img) (values ! 0) values of
              None \<Rightarrow>
                Inr (False, img\<lparr>err := err img
                       @ ''BitsPerSample must be same among samples at the moment.'' @ nl\<rparr>)
            | Some vs \<Rightarrow>
                (case write_tag pf img TIFFTAG_BITS_PER_SAMPLE TIFF_SHORT num_samples
                        (concat (map (store_bytes be 2) vs)) [] of
                   Inl a \<Rightarrow> Inl a
                 | Inr (ret, img1) \<Rightarrow>
                     if \<not> ret then Inr (False, img1)
                     else Inr (True, img1\<lparr>bits_per_samples := values\<rparr>))))"

text \<open>
  The text setters. \<open>ascii.data()\<close> points at the characters followed by a NUL;
  \<open>count\<close> is \<open>ascii.length() + 1\<close> converted to \<open>unsigned int\<close>.
\<close>

definition c_str :: "string \<Rightarrow> byte list" where
  "c_str s = map (\<lambda>c. of_nat (of_char c)) s @ [0]"

definition SetImageDescription :: "platform \<Rightarrow> DNGImage \<Rightarrow> string \<Rightarrow> abort + (bool \<times> DNGImage)" where
  "SetImageDescription pf img ascii =
     (let count = (of_nat (length ascii + 1) :: 32 word)
      in if count < 2 then Inr (False, img)
         else if count > 1024 * 1024 then Inr (False, img)
         else write_tag pf img TIFFTAG_IMAGEDESCRIPTION TIFF_ASCII count (c_str ascii) [])"

definition SetUniqueCameraModel :: "platform \<Rightarrow> DNGImage \<Rightarrow> string \<Rightarrow> abort + (bool \<times> DNGImage)" where
  "SetUniqueCameraModel pf img ascii =
     (let count = (of_nat (length ascii + 1) :: 32 word)
      in if count < 2 then Inr (False, img)
         else if count > 1024 * 1024 then Inr (False, img)
         else write_tag pf img TIFFTAG_UNIQUE_CAMERA_MODEL TIFF_ASCII count (c_str ascii) [])"

definition SetSoftware :: "platform \<Rightarrow> DNGImage \<Rightarrow> string \<Rightarrow> abort + (bool \<times> DNGImage)" where
  "SetSoftware pf img ascii =
     (let count = (of_nat (length ascii + 1) :: 32 word)
      in if count < 2 then Inr (False, img)
         else if count > 4096 then Inr (False, img)
         else write_tag pf img TIFFTAG_SOFTWARE TIFF_ASCII count (c_str ascii) [])"

text \<open>
  \<open>SetImageData\<close>: the strip is appended to \<open>data_os_\<close>; its byte count goes into a
  tag written with a null stream pointer. An empty vector has no data.
\<close>

definition SetImageData :: "platform \<Rightarrow> DNGImage \<Rightarrow> byte list \<Rightarrow> abort + (bool \<times> DNGImage)" where
  "SetImageData pf img imageData =
     (let data_len = length imageData
      in if data_len < 1 then Inr (False, img)
         else
           (let img1 = img\<lparr>data_strip_offset := length (data_os img),
                           data_strip_bytes := data_len,
                           data_os := data_os img @ imageData\<rparr>
            in case WriteTIFFTag pf TIFFTAG_STRIP_BYTE_COUNTS TIFF_LONG 1
                      (store_bytes (host_big_endian pf) 4 (of_nat data_len :: 32 word))
                      (ifd_tags img1) None of
                 Inl a \<Rightarrow> Inl a
               | Inr (ret, tags', os') \<Rightarrow>
                   if \<not> ret then Inr (False, img1\<lparr>ifd_tags := tags'\<rparr>)
                   else Inr (True, img1\<lparr>ifd_tags := tags', num_fields := num_fields img1 + 1\<rparr>)))"

subsection \<open>Writing the file\<close>

text \<open>The first index \<open>i\<close> with \<open>bits_per_samples_[i] == 0\<close>, counting from \<open>i\<close>.\<close>

fun find_zero :: "16 word list \<Rightarrow> nat \<Rightarrow> nat option" where
  "find_zero [] i = None"
| "find_zero (b # bs) i = (if b = 0 then Some i else find_zero bs (Suc i))"

text \<open>
  \<open>for (i = 0; i < n; i++) swapK(&ptr[i])\<close> on the copy of the data, \<open>ptr\<close> being
  \<open>p\<close> bytes into it: each unit of \<open>k\<close> bytes is reversed in place.
\<close>

fun swap_units :: "nat \<Rightarrow> nat \<Rightarrow> nat \<Rightarrow> byte list \<Rightarrow> byte list" where
  "swap_units k p 0 data = data"
| "swap_units k p (Suc n) data =
     swap_units k (p + k) n (take p data @ rev (take k (drop p data)) @ drop (p + k) data)"

text \<open>Swapping \<open>n\<close> units past the end of the copy is undefined in C++: \<open>OutOfBounds\<close> here.\<close>

definition swap_strip :: "nat \<Rightarrow> DNGImage \<Rightarrow> byte list \<Rightarrow> abort + byte list" where
  "swap_strip k img data =
     (let n = data_strip_bytes img div k
      in if 0 < n \<and> length data < data_strip_offset img + k * n then Inl OutOfBounds
         else Inr (swap_units k (data_strip_offset img) n data))"

definition WriteDataToStream ::
  "platform \<Rightarrow> DNGImage \<Rightarrow> byte list \<Rightarrow> abort + (bool \<times> DNGImage \<times> byte list)" where
  "WriteDataToStream pf img ofs =
     (if length (data_os img) = 0 then
        Inr (False, img\<lparr>err := err img @ ''Empty IFD data and image data.'' @ nl\<rparr>, ofs)
      else if bits_per_samples img = [] then
        Inr (False, img\<lparr>err := err img @ ''BitsPerSample is not set'' @ nl\<rparr>, ofs)
      else
        (case find_zero (bits_per_samples img) 0 of
           Some i \<Rightarrow>
             Inr (False,
                  img\<lparr>err := err img @ to_dec i @ [CHR 0x27] @ ''th BitsPerSample is zero''\<rparr>,
                  ofs)
         | None \<Rightarrow>
             if samples_per_pixels img = 0 then
               Inr (False, img\<lparr>err := err img @ ''SamplesPerPixels is not set or zero.''\<rparr>, ofs)
             else
               (let data = data_os img;
                    bps = (ucast (bits_per_samples img ! 0) :: 32 word)
                in case (if data_strip_bytes img = 0 then Inr data
                         else if swap_endian img then
                           (if bps = 16 then swap_strip 2 img data
                            else if bps = 32 then swap_strip 4 img data
                            else if bps = 64 then swap_strip 8 img data
                            else Inr data)
                         else Inr data) of
                     Inl a \<Rightarrow> Inl a
                   | Inr data' \<Rightarrow> Inr (True, img, ofs @ data'))))"

text \<open>
  The loop of \<open>WriteIFDToStream\<close> over the sorted tags, appending to \<open>ifd_os\<close>. Its
  \<open>assert(0)\<close> is reached by a tag of length 0 or 3: with \<open>NDEBUG\<close> nothing is written
  for the value of that tag.
\<close>

fun write_ifd_entries ::
  "platform \<Rightarrow> bool \<Rightarrow> 32 word \<Rightarrow> IFDTag list \<Rightarrow> byte list \<Rightarrow> abort + byte list" where
  "write_ifd_entries pf swp data_base_offset [] ifd_os = Inr ifd_os"
| "write_ifd_entries pf swp data_base_offset (ifd # tags) ifd_os =
     (let be = host_big_endian pf;
          os1 = Write2 be (tag ifd) ifd_os swp;
          os2 = Write2 be (type ifd) os1 swp;
          os3 = Write4 be (count ifd) os2 swp;
          len = tag_len (type ifd) (count ifd);
          mem = store_bytes be 4 (offset_or_value ifd)
      in if len > 4 then
           write_ifd_entries pf swp data_base_offset tags
             (Write4 be (offset_or_value ifd + data_base_offset) os3 swp)
         else if len = 1 then
           write_ifd_entries pf swp data_base_offset tags
             (Write1 0 (Write1 0 (Write1 0 (Write1 (mem ! 0) os3))))
         else if len = 2 then
           write_ifd_entries pf swp data_base_offset tags
             (Write2 be 0 (Write2 be (load_bytes be (take 2 mem)) os3 swp) swp)
         else if len = 4 then
           write_ifd_entries pf swp data_base_offset tags
             (Write4 be (load_bytes be (take 4 mem)) os3 swp)
         else if ndebug pf then write_ifd_entries pf swp data_base_offset tags os3
         else Inl AssertionFailed)"

text \<open>
  \<open>WriteIFDToStream\<close>: the STRIP_OFFSET tag is added, the tags are sorted by
  \<open>std::sort\<close> and written after their number.
\<close>

definition WriteIFDToStream ::
  "platform \<Rightarrow> DNGImage \<Rightarrow> 32 word \<Rightarrow> 32 word \<Rightarrow> byte list
   \<Rightarrow> abort + (bool \<times> DNGImage \<times> byte list)" where
  "WriteIFDToStream pf img data_base_offset strip_offset ofs =
     (if num_fields img = 0 \<or> length (ifd_tags img) < 1 then
        Inr (False, img\<lparr>err := err img @ ''No TIFF Tags.'' @ nl\<rparr>, ofs)
      else
        (let be = host_big_endian pf;
             ifd = \<lparr>tag = TIFFTAG_STRIP_OFFSET, type = TIFF_LONG, count = 1,
                    offset_or_value = strip_offset + of_nat kHeaderSize\<rparr>;
             tags = std_sort pf (ifd_tags img @ [ifd]);
             num_fields' = (of_nat (length tags) :: 16 word);
             ifd_os = Write2 be num_fields' [] (swap_endian img)
         in case write_ifd_entries pf (swap_endian img) data_base_offset tags ifd_os of
              Inl a \<Rightarrow> Inl a
            | Inr ifd_os' \<Rightarrow> Inr (True, img, ofs @ ifd_os')))"

subsection \<open>DNGWriter\<close>

record DNGWriter =
  writer_swap_endian :: bool
  writer_dng_big_endian :: bool

definition DNGWriter_new :: "platform \<Rightarrow> bool \<Rightarrow> DNGWriter" where
  "DNGWriter_new pf big_endian =
     \<lparr>writer_swap_endian = (host_big_endian pf \<noteq> big_endian),
      writer_dng_big_endian = big_endian\<rparr>"

definition WriteTIFFVersionHeader :: "byte list \<Rightarrow> bool \<Rightarrow> bool \<times> byte list" where
  "WriteTIFFVersionHeader out big_endian =
     (if big_endian then (True, Write1 0x2a (Write1 0x0 (Write1 0x4d (Write1 0x4d out))))
      else (True, Write1 0x0 (Write1 0x2a (Write1 0x49 (Write1 0x49 out)))))"

text \<open>
  \<open>DNGWriter::WriteToFile(image, err, count)\<close>. The result is the returned pointer
  (\<open>None\<close> for \<open>nullptr\<close>, otherwise the \<open>size + 1\<close> bytes copied into the buffer), the
  image (its \<open>err_\<close> is mutable), and the cells behind \<open>err\<close> and \<open>count\<close>, each
  \<open>None\<close> when the pointer is null. \<open>image\<close> is taken to be non-null and \<open>malloc\<close> to
  succeed.
\<close>

definition WriteToFile ::
  "platform \<Rightarrow> DNGWriter \<Rightarrow> DNGImage \<Rightarrow> string option \<Rightarrow> 64 word option
   \<Rightarrow> abort + (byte list option \<times> DNGImage \<times> string option \<times> 64 word option)" where
  "WriteToFile pf w img err_cell count_cell =
     (let be = host_big_endian pf;
          (ok, header) = WriteTIFFVersionHeader [] (writer_dng_big_endian w)
      in if \<not> ok then
           Inr (None, img,
                map_option (\<lambda>_. ''Failed to write TIFF version header.'' @ nl) err_cell,
                count_cell)
         else
           (let data_size = length (data_os img);
                strip_offset = data_strip_offset img;
                ifd_offset = (of_nat kHeaderSize + of_nat data_size :: 32 word);
                header1 = Write4 be ifd_offset header (writer_swap_endian w)
            in if \<not> ndebug pf \<and> length header1 \<noteq> kHeaderSize then Inl AssertionFailed
               else
                 (case WriteDataToStream pf img ([] @ header1) of
                    Inl a \<Rightarrow> Inl a
                  | Inr (ok1, img1, ofs1) \<Rightarrow>
                      if \<not> ok1 then
                        Inr (None, img1,
                             map_option (\<lambda>_. ''Failed to write image data: '' @ err img1) err_cell,
                             count_cell)
                      else
                        (case WriteIFDToStream pf img1 0 (of_nat strip_offset) ofs1 of
                           Inl a \<Rightarrow> Inl a
                         | Inr (ok2, img2, ofs2) \<Rightarrow>
                             if \<not> ok2 then
                               Inr (None, img2,
                                    map_option (\<lambda>_. ''Failed to write IFD: '' @ err img2) err_cell,
                                    count_cell)
                             else
                               (let zero = (if writer_swap_endian w then swap4 be 0 else 0);
                                    out_str = ofs2 @ store_bytes be 4 zero
                                in case count_cell of
                                     None \<Rightarrow> Inl NullDereference
                                   | Some _ \<Rightarrow>
                                       Inr (Some (out_str @ [0]), img2, err_cell,
                                            Some (of_nat (length out_str))))))))"

subsection \<open>Images that the interface can produce\<close>

text \<open>
  Tags enter \<open>ifd_tags_\<close> only through \<open>WriteTIFFTag\<close>, and where \<open>assert\<close> is
  live that function aborts rather than store a tag of length 0 or 3. \<open>SetImageData\<close>
  records a strip that lies inside \<open>data_os_\<close>, which only ever grows.
\<close>

definition tags_ok :: "platform \<Rightarrow> IFDTag list \<Rightarrow> bool" where
  "tags_ok pf tags =
     (ndebug pf \<or> list_all (\<lambda>t. tag_len (type t) (count t) \<notin> {0, 3}) tags)"

definition strip_ok :: "DNGImage \<Rightarrow> bool" where
  "strip_ok img = (data_strip_offset img + data_strip_bytes img \<le> length (data_os img))"

definition image_ok :: "platform \<Rightarrow> DNGImage \<Rightarrow> bool" where
  "image_ok pf img = (tags_ok pf (ifd_tags img) \<and> strip_ok img)"

text \<open>The checks of \<open>WriteDataToStream\<close> and \<open>WriteIFDToStream\<close> that make them return false.\<close>

definition writable :: "DNGImage \<Rightarrow> bool" where
  "writable img =
     (data_os img \<noteq> [] \<and> bits_per_samples img \<noteq> [] \<and> 0 \<notin> set (bits_per_samples img)
      \<and> samples_per_pixels img \<noteq> 0 \<and> num_fields img \<noteq> 0 \<and> ifd_tags img \<noteq> [])"

subsection \<open>Sequences of calls\<close>

text \<open>
  A client calls the setters one after the other on one image. \<open>run\<close> performs such
  a sequence and keeps, with the final image, each call and what it returned.
\<close>

datatype DNGCall =
    CallSetSamplesPerPixel "16 word"
  | CallSetBitsPerSample
  | CallSetImageDescription string
  | CallSetUniqueCameraModel string
  | CallSetSoftware string
  | CallSetImageData "byte list"

fun do_call :: "platform \<Rightarrow> DNGImage \<Rightarrow> DNGCall \<Rightarrow> abort + (bool \<times> DNGImage)" where
  "do_call pf img (CallSetSamplesPerPixel v) = SetSamplesPerPixel pf img v"
| "do_call pf img CallSetBitsPerSample = SetBitsPerSample pf img"
| "do_call pf img (CallSetImageDescription s) = SetImageDescription pf img s"
| "do_call pf img (CallSetUniqueCameraModel s) = SetUniqueCameraModel pf img s"
| "do_call pf img (CallSetSoftware s) = SetSoftware pf img s"
| "do_call pf img (CallSetImageData bs) = SetImageData pf img bs"

fun run :: "platform \<Rightarrow> DNGImage \<Rightarrow> DNGCall list \<Rightarrow> abort + ((DNGCall \<times> bool) list \<times> DNGImage)" where
  "run pf img [] = Inr ([], img)"
| "run pf img (c # cs) =
     (case do_call pf img c of
        Inl a \<Rightarrow> Inl a
      | Inr (ret, img1) \<Rightarrow>
          (case run pf img1 cs of
             Inl a \<Rightarrow> Inl a
           | Inr (log, img2) \<Rightarrow> Inr ((c, ret) # log, img2)))"

text \<open>The values of the \<open>SetSamplesPerPixel\<close> calls of a log that returned true, in order.\<close>

fun successful_spp :: "(DNGCall \<times> bool) list \<Rightarrow> 16 word list" where
  "successful_spp [] = []"
| "successful_spp ((CallSetSamplesPerPixel v, True) # log) = v # successful_spp log"
| "successful_spp (c # log) = successful_spp log"

subsection \<open>Concrete platforms\<close>

text \<open>A little-endian host whose \<open>std::sort\<close> keeps tags with equal numbers in order.\<close>

definition le_debug :: platform where
  "le_debug = \<lparr>host_big_endian = False, ndebug = False, std_sort = sort_key tag\<rparr>"

definition le_release :: platform where
  "le_release = \<lparr>host_big_endian = False, ndebug = True, std_sort = sort_key tag\<rparr>"

section \<open>The container decoder (lib/include/motioncam/Decoder.hpp)\<close>

text \<open>
  Only the declarations of the decoder are among the sources: \<open>Decoder.cpp\<close> and
  \<open>Container.hpp\<close> are missing. The types follow \<open>Decoder.hpp\<close>; what the operations do
  is taken from the specification (sections 3, 4 and 7), and the byte layout, which the
  specification leaves open, is a parameter.
\<close>

subsection \<open>Data model\<close>

text \<open>\<open>typedef int64_t Timestamp\<close>: timestamps are integers, compared as signed numbers.\<close>

type_synonym Timestamp = int


text \<open>
  Modelled from the spec: the kind of a buffer (section 3); its declaration is in the
  missing \<open>Container.hpp\<close>.
\<close>

datatype Kind = Frame | Audio | Metadata

text \<open>
  Modelled from the spec: \<open>BufferOffset\<close> of the missing \<open>Container.hpp\<close>, as the Offset
  Table Entry of section 3 (offset, on-disk size, kind, codec tag, timestamp).
\<close>

record BufferOffset =
  entry_offset :: nat
  entry_size :: nat
  entry_kind :: Kind
  entry_codec :: nat
  entry_timestamp :: Timestamp

text \<open>
  Modelled from the spec: the error kinds of section 7, which stand for the exceptions
  that the missing \<open>Decoder.cpp\<close> throws.
\<close>

datatype ErrorKind =
  IOError | CorruptContainer | FrameNotFound | UnsupportedCodec | CodecFailure | SizeMismatch

text \<open>
  Modelled from the spec: the byte layout, which is in the missing \<open>Container.hpp\<close>
  and which section 9 leaves to the implementer. The header check
  sees the first \<open>header_size\<close> bytes; \<open>read_marker\<close> reads the kind, codec tag, payload
  size and timestamp of a record marker of \<open>marker_size\<close> bytes, \<open>None\<close> when a field is
  nonsensical; \<open>read_footer_index\<close> is the fast path's parse of the trailing index,
  \<open>None\<close> when the footer is missing, its pointer is out of bounds or the entry count is
  inconsistent.
\<close>

record Format =
  header_size :: nat
  header_ok :: "byte list \<Rightarrow> bool"
  marker_size :: nat
  read_marker :: "byte list \<Rightarrow> (Kind \<times> nat \<times> nat \<times> Timestamp) option"
  read_footer_index :: "byte list \<Rightarrow> BufferOffset list option"


text \<open>
  The members of \<open>class Decoder\<close> that the operations below read (\<open>mFile\<close> as the bytes
  of the file), and whether the recovery path built the index (section 4.1, step 5).
  \<open>std::map<Timestamp, BufferOffset>\<close> is a list of pairs in key order.
\<close>

record Decoder =
  mFile :: "byte list"
  mOffsets :: "BufferOffset list"
  mAudioOffsets :: "BufferOffset list"
  mFrameOffsetMap :: "(Timestamp \<times> BufferOffset) list"
  mFrameList :: "Timestamp list"
  viaRecovery :: bool

subsection \<open>Index Builder\<close>

text \<open>
  Modelled from the spec: the recovery scan of section 4.1, step 3, from position
  \<open>pos\<close> (part of the missing \<open>Decoder::readIndex\<close>). It stops where the remaining bytes do not hold a marker, where a marker is
  nonsensical, or where the payload would run past the end of the file.
\<close>

function recovery_scan :: "Format \<Rightarrow> byte list \<Rightarrow> nat \<Rightarrow> BufferOffset list" where
  "recovery_scan fmt file pos =
     (if marker_size fmt = 0 \<or> length file < pos + marker_size fmt then []
      else
        (case read_marker fmt (take (marker_size fmt) (drop pos file)) of
           None \<Rightarrow> []
         | Some (k, c, sz, ts) \<Rightarrow>
             if length file < pos + marker_size fmt + sz then []
             else \<lparr>entry_offset = pos + marker_size fmt, entry_size = sz, entry_kind = k,
                   entry_codec = c, entry_timestamp = ts\<rparr>
                  # recovery_scan fmt file (pos + marker_size fmt + sz)))"
  by pat_completeness auto
termination
  by (relation "measure (\<lambda>(fmt, file, pos). length file - pos)") auto

declare recovery_scan.simps [simp del]

text \<open>
  Modelled from the spec: the missing \<open>Decoder::readIndex\<close>, section 4.1, steps 2
  and 3. The index of the footer is taken
  when every entry lies inside the file; otherwise the file is scanned. The flag tells
  which path was used.
\<close>

definition build_index :: "Format \<Rightarrow> byte list \<Rightarrow> BufferOffset list \<times> bool" where
  "build_index fmt file =
     (case read_footer_index fmt file of
        Some es \<Rightarrow>
          if list_all (\<lambda>e. entry_offset e + entry_size e \<le> length file) es then (es, False)
          else (recovery_scan fmt file (header_size fmt), True)
      | None \<Rightarrow> (recovery_scan fmt file (header_size fmt), True))"

text \<open>
  Modelled from the spec: the check for a duplicate Frame timestamp (section 4.1,
  step 4), on the sorted list: two neighbours with the same timestamp.
\<close>

fun adjacent_duplicate :: "Timestamp list \<Rightarrow> bool" where
  "adjacent_duplicate (a # b # ts) = (a = b \<or> adjacent_duplicate (b # ts))"
| "adjacent_duplicate ts = False"

text \<open>
  Modelled from the spec: the missing \<open>Decoder::reindexOffsets\<close>, section 4.1, step 4.
  The entries
  are partitioned by kind, the Frame entries sorted by timestamp, and a duplicate Frame
  timestamp is \<open>CorruptContainer\<close>.
\<close>

definition reindexOffsets :: "byte list \<Rightarrow> BufferOffset list \<Rightarrow> bool \<Rightarrow> ErrorKind + Decoder" where
  "reindexOffsets file es recovered =
     (let frames = sort_key entry_timestamp (filter (\<lambda>e. entry_kind e = Frame) es);
          audio = filter (\<lambda>e. entry_kind e = Audio) es
      in if adjacent_duplicate (map entry_timestamp frames) then Inl CorruptContainer
         else Inr \<lparr>mFile = file, mOffsets = es, mAudioOffsets = audio,
                   mFrameOffsetMap = map (\<lambda>e. (entry_timestamp e, e)) frames,
                   mFrameList = map entry_timestamp frames,
                   viaRecovery = recovered\<rparr>)"

text \<open>
  Modelled from the spec: \<open>open\<close> of section 4.2 (the constructors and
  \<open>Decoder::init\<close>, whose bodies are missing). The handle is \<open>None\<close> when the file cannot be opened; that and a
  file too short for the header to be read are \<open>IOError\<close>. A header mismatch and a
  recovery scan that finds no record are \<open>CorruptContainer\<close> (section 7).
\<close>

definition open_container :: "Format \<Rightarrow> byte list option \<Rightarrow> ErrorKind + Decoder" where
  "open_container fmt handle =
     (case handle of
        None \<Rightarrow> Inl IOError
      | Some file \<Rightarrow>
          if length file < header_size fmt then Inl IOError
          else if \<not> header_ok fmt (take (header_size fmt) file) then Inl CorruptContainer
          else
            (case build_index fmt file of
               (es, recovered) \<Rightarrow>
                 if recovered \<and> es = [] then Inl CorruptContainer
                 else reindexOffsets file es recovered))"

text \<open>
  Modelled from the spec: the missing body of \<open>Decoder::getFrames\<close>, the
  \<open>listFrames()\<close> of section 4.2: the Frame Timestamp Index as it was built.
\<close>

definition getFrames :: "Decoder \<Rightarrow> Timestamp list" where
  "getFrames d = mFrameList d"

subsection \<open>Audio\<close>












subsection \<open>A concrete layout\<close>

text \<open>
  A layout with one byte per field, to run the model on: a two-byte header \<open>4D 43\<close>; a
  marker of kind (0, 1, 2), codec, payload size and timestamp; an optional index of a
  count and five bytes per entry (kind, codec, offset, size, timestamp), followed by one
  last byte holding the position of the index.
\<close>

definition demo_kind :: "byte \<Rightarrow> Kind option" where
  "demo_kind k = (if k = 0 then Some Frame else if k = 1 then Some Audio
                  else if k = 2 then Some Metadata else None)"

definition demo_marker :: "byte list \<Rightarrow> (Kind \<times> nat \<times> nat \<times> Timestamp) option" where
  "demo_marker m =
     (case m of
        [k, c, sz, ts] \<Rightarrow> map_option (\<lambda>kd. (kd, unat c, unat sz, sint ts)) (demo_kind k)
      | _ \<Rightarrow> None)"

fun demo_entries :: "byte list \<Rightarrow> BufferOffset list option" where
  "demo_entries [] = Some []"
| "demo_entries (k # c # off # sz # ts # bs) =
     (case (demo_kind k, demo_entries bs) of
        (Some kd, Some es) \<Rightarrow>
          Some (\<lparr>entry_offset = unat off, entry_size = unat sz, entry_kind = kd,
                  entry_codec = unat c, entry_timestamp = sint ts\<rparr> # es)
      | _ \<Rightarrow> None)"
| "demo_entries bs = None"

definition demo_footer :: "byte list \<Rightarrow> BufferOffset list option" where
  "demo_footer file =
     (if length file < 4 then None
      else
        (let p = unat (last file)
         in if p < 2 \<or> length file - 1 \<le> p then None
            else
              (let n = unat (file ! p)
               in if p + 1 + 5 * n + 1 \<noteq> length file then None
                  else demo_entries (take (5 * n) (drop (p + 1) file)))))"

definition demo_format :: Format where
  "demo_format =
     \<lparr>header_size = 2, header_ok = (\<lambda>h. h = [0x4D, 0x43]), marker_size = 4,
      read_marker = demo_marker, read_footer_index = demo_footer\<rparr>"


text \<open>
  Header, Frame 2 (payload \<open>AA\<close>), Audio 5 (payload \<open>01 00 02 00\<close>), Frame 1 (payload
  \<open>BB\<close>), not finalised.
\<close>

definition demo_file :: "byte list" where
  "demo_file = [0x4D, 0x43,  0, 0, 1, 2,  0xAA,  1, 0, 4, 5,  1, 0, 2, 0,  0, 0, 1, 1,  0xBB]"

text \<open>The same records with their index and footer.\<close>

definition demo_file_final :: "byte list" where
  "demo_file_final = demo_file @
     [3,  0, 0, 6, 1, 2,  1, 0, 11, 4, 5,  0, 0, 19, 1, 1,  20]"

text \<open>Two Frame records with the timestamp 2.\<close>

definition demo_file_duplicate :: "byte list" where
  "demo_file_duplicate = [0x4D, 0x43,  0, 0, 1, 2,  0xAA,  0, 0, 1, 2,  0xBB]"



section \<open>Properties of the image-file writer\<close>

lemma store_bytes_2: "store_bytes be 2 (v::16 word) = (if be then [ucast (drop_bit 8 v), ucast v] else [ucast v, ucast (drop_bit 8 v)])"
  by (simp add: store_bytes_def eval_nat_numeral upt_rec)

lemma store_bytes_4_zero: "store_bytes be 4 (0::32 word) = [0,0,0,0]"
  by (simp add: store_bytes_def eval_nat_numeral upt_rec Let_def)

lemma load_store_2: "load_bytes be (store_bytes be 2 (v::16 word)) = v"
  apply (simp add: store_bytes_2 load_bytes_def)
  apply (rule bit_eqI)
  apply (auto simp add: bit_simps)
  done

lemma short_slot_be: "(load_bytes True (store_bytes True 2 (v::16 word) @ [0,0]) :: 32 word) = push_bit 16 (ucast v)"
proof (rule bit_eqI)
  fix n
  assume "possible_bit TYPE(32 word) n"
  have *: "16 \<le> n \<Longrightarrow> n - 16 < 8 \<or> 8 + (n - 24) = n - 16" by arith
  show "bit (load_bytes True (store_bytes True 2 v @ [0, 0]) :: 32 word) n = bit (push_bit 16 (ucast v) :: 32 word) n"
    using * by (auto simp add: store_bytes_2 load_bytes_def bit_simps)
qed

lemma short_slot_le: "(load_bytes False (store_bytes False 2 (v::16 word) @ [0,0]) :: 32 word) = ucast v"
proof (rule bit_eqI)
  fix n
  assume "possible_bit TYPE(32 word) n"
  have *: "n < 8 \<or> 8 + (n - 8) = n" by arith
  show "bit (load_bytes False (store_bytes False 2 v @ [0, 0]) :: 32 word) n = bit (ucast v :: 32 word) n"
    using * by (auto simp add: store_bytes_2 load_bytes_def bit_simps dest: bit_imp_le_length)
qed

lemma short_slot: "(load_bytes be (store_bytes be 2 (v::16 word) @ [0,0]) :: 32 word) = (if be then push_bit 16 (ucast v) else ucast v)"
  using short_slot_be short_slot_le by (cases be) simp_all

lemma length_store_bytes [simp]: "length (store_bytes be n v) = n"
  by (simp add: store_bytes_def Let_def)

lemma tag_len_short_1: "tag_len TIFF_SHORT 1 = 2"
  by (simp add: tag_len_def TIFF_SHORT_def typesize_table_def)

lemma WriteTIFFTag_short:
  "WriteTIFFTag pf tg TIFF_SHORT 1 (store_bytes (host_big_endian pf) 2 (v :: 16 word)) tags (Some os) =
     Inr (True,
          tags @ [\<lparr>tag = tg, type = TIFF_SHORT, count = 1,
                   offset_or_value = (if host_big_endian pf then push_bit 16 (ucast v) else ucast v)\<rparr>],
          Some os)"
  by (simp add: WriteTIFFTag_def tag_len_short_1 Let_def load_store_2 store_bytes_4_zero short_slot)

lemma write_tag_short:
  "write_tag pf img tg TIFF_SHORT 1 (store_bytes (host_big_endian pf) 2 (v :: 16 word)) msg =
     Inr (True,
          img\<lparr>ifd_tags := ifd_tags img @ [\<lparr>tag = tg, type = TIFF_SHORT, count = 1,
                   offset_or_value = (if host_big_endian pf then push_bit 16 (ucast v) else ucast v)\<rparr>],
              num_fields := num_fields img + 1\<rparr>)"
  by (simp add: write_tag_def WriteTIFFTag_short)

lemma SetSamplesPerPixel_reject:
  "4 < v \<Longrightarrow> SetSamplesPerPixel pf img v =
     Inr (False, img\<lparr>err := err img
            @ ''Samples per pixel must be less than or equal to 4, but got ''
            @ to_dec (unat v) @ ''.'' @ nl\<rparr>)"
  by (simp add: SetSamplesPerPixel_def)

lemma SetSamplesPerPixel_accept:
  "v \<le> 4 \<Longrightarrow> SetSamplesPerPixel pf img v =
     Inr (True,
          img\<lparr>ifd_tags := ifd_tags img @ [\<lparr>tag = TIFFTAG_SAMPLES_PER_PIXEL, type = TIFF_SHORT, count = 1,
                   offset_or_value = (if host_big_endian pf then push_bit 16 (ucast v) else ucast v)\<rparr>],
              num_fields := num_fields img + 1,
              samples_per_pixels := ucast v\<rparr>)"
  by (simp add: SetSamplesPerPixel_def write_tag_short not_less [symmetric])

lemma WriteDataToStream_spp_zero:
  "samples_per_pixels img = 0 \<Longrightarrow> \<exists>e. WriteDataToStream pf img ofs = Inr (False, img\<lparr>err := err img @ e\<rparr>, ofs)"
  by (auto simp add: WriteDataToStream_def split: option.splits)

text \<open>
  C9: \<open>SetSamplesPerPixel(v)\<close> with \<open>v > 4\<close> returns false, appends its message to
  \<open>err_\<close> and changes nothing else of the image, so no tag is written. With \<open>v \<le> 4\<close>,
  zero included, it appends the SAMPLES_PER_PIXEL tag, counts the field, records \<open>v\<close> and
  returns true; after \<open>v = 0\<close> every \<open>WriteDataToStream\<close> on the resulting image returns
  false and writes nothing to the stream.
\<close>

theorem SetSamplesPerPixel_range:
  "(4 < v \<longrightarrow>
      SetSamplesPerPixel pf img v =
        Inr (False, img\<lparr>err := err img
               @ ''Samples per pixel must be less than or equal to 4, but got ''
               @ to_dec (unat v) @ ''.'' @ nl\<rparr>))
   \<and> (v \<le> 4 \<longrightarrow>
      (\<exists>img'. SetSamplesPerPixel pf img v = Inr (True, img')
         \<and> img' = img\<lparr>ifd_tags := ifd_tags img @
                     [\<lparr>tag = TIFFTAG_SAMPLES_PER_PIXEL, type = TIFF_SHORT, count = 1,
                       offset_or_value =
                         (if host_big_endian pf then push_bit 16 (ucast v) else ucast v)\<rparr>],
                   num_fields := num_fields img + 1,
                   samples_per_pixels := ucast v\<rparr>
         \<and> (v = 0 \<longrightarrow>
              (\<forall>ofs. \<exists>e. WriteDataToStream pf img' ofs
                          = Inr (False, img'\<lparr>err := err img' @ e\<rparr>, ofs)))))"
proof (intro conjI impI)
  assume "4 < v"
  then show "SetSamplesPerPixel pf img v =
        Inr (False, img\<lparr>err := err img
               @ ''Samples per pixel must be less than or equal to 4, but got ''
               @ to_dec (unat v) @ ''.'' @ nl\<rparr>)"
    by (rule SetSamplesPerPixel_reject)
next
  assume le: "v \<le> 4"
  let ?img' = "img\<lparr>ifd_tags := ifd_tags img @
                     [\<lparr>tag = TIFFTAG_SAMPLES_PER_PIXEL, type = TIFF_SHORT, count = 1,
                       offset_or_value =
                         (if host_big_endian pf then push_bit 16 (ucast v) else ucast v)\<rparr>],
                   num_fields := num_fields img + 1,
                   samples_per_pixels := ucast v\<rparr>"
  have a: "SetSamplesPerPixel pf img v = Inr (True, ?img')"
    using le by (rule SetSamplesPerPixel_accept)
  have b: "v = 0 \<longrightarrow> (\<forall>ofs. \<exists>e. WriteDataToStream pf ?img' ofs
                          = Inr (False, ?img'\<lparr>err := err ?img' @ e\<rparr>, ofs))"
  proof (intro impI allI)
    fix ofs assume "v = 0"
    then have "samples_per_pixels ?img' = 0" by simp
    then show "\<exists>e. WriteDataToStream pf ?img' ofs = Inr (False, ?img'\<lparr>err := err ?img' @ e\<rparr>, ofs)"
      by (rule WriteDataToStream_spp_zero)
  qed
  show "\<exists>img'. SetSamplesPerPixel pf img v = Inr (True, img')
         \<and> img' = ?img'
         \<and> (v = 0 \<longrightarrow>
              (\<forall>ofs. \<exists>e. WriteDataToStream pf img' ofs
                          = Inr (False, img'\<lparr>err := err img' @ e\<rparr>, ofs)))"
    using a b by blast
qed


lemma SetBitsPerSample_accept:
  "samples_per_pixels img = 1 \<Longrightarrow> SetBitsPerSample pf img =
     Inr (True,
          img\<lparr>ifd_tags := ifd_tags img @ [\<lparr>tag = TIFFTAG_BITS_PER_SAMPLE, type = TIFF_SHORT, count = 1,
                   offset_or_value =
                     (let bps = (if swap_endian img then swap2 (host_big_endian pf) 16 else 16)
                      in if host_big_endian pf then push_bit 16 (ucast bps) else ucast bps)\<rparr>],
              num_fields := num_fields img + 1,
              bits_per_samples := [16]\<rparr>)"
  by (simp add: SetBitsPerSample_def write_tag_short Let_def)

lemma SetBitsPerSample_reject:
  assumes "samples_per_pixels img \<noteq> 1"
  shows "\<exists>e. SetBitsPerSample pf img = Inr (False, img\<lparr>err := err img @ e\<rparr>)"
proof (cases "samples_per_pixels img = 0")
  case True
  then show ?thesis
    unfolding SetBitsPerSample_def Let_def by (intro exI) simp
next
  case False
  with assms show ?thesis
    unfolding SetBitsPerSample_def Let_def by (intro exI) simp
qed

lemma SetSamplesPerPixel_records:
  "SetSamplesPerPixel pf img0 v = Inr (True, img) \<Longrightarrow> samples_per_pixels img = ucast v"
  by (cases "4 < v") (auto simp add: SetSamplesPerPixel_reject SetSamplesPerPixel_accept not_less)

lemma ucast_16_32_eq_1: "(ucast (v :: 16 word) = (1 :: 32 word)) = (v = 1)"
proof
  assume "ucast v = (1 :: 32 word)"
  then have "(ucast (ucast v :: 32 word) :: 16 word) = ucast (1 :: 32 word)"
    by simp
  then show "v = 1"
    by (simp add: ucast_up_ucast_id is_up)
next
  assume "v = 1"
  then show "ucast v = (1 :: 32 word)"
    by simp
qed

lemma SetBitsPerSample_by_state:
  "\<exists>ret img'. SetBitsPerSample pf img = Inr (ret, img')
      \<and> (ret \<longleftrightarrow> samples_per_pixels img = 1)
      \<and> (\<forall>img0 v. SetSamplesPerPixel pf img0 v = Inr (True, img) \<longrightarrow> (ret \<longleftrightarrow> v = 1))
      \<and> (ret \<longrightarrow> bits_per_samples img' = [16]
            \<and> ifd_tags img' = ifd_tags img @
                 [\<lparr>tag = TIFFTAG_BITS_PER_SAMPLE, type = TIFF_SHORT, count = 1,
                   offset_or_value =
                     (let bps = (if swap_endian img then swap2 (host_big_endian pf) 16 else 16)
                      in if host_big_endian pf then push_bit 16 (ucast bps) else ucast bps)\<rparr>])
      \<and> (\<not> ret \<longrightarrow> bits_per_samples img' = bits_per_samples img \<and> ifd_tags img' = ifd_tags img)"
proof (cases "samples_per_pixels img = 1")
  case True
  have "\<forall>img0 v. SetSamplesPerPixel pf img0 v = Inr (True, img) \<longrightarrow> v = 1"
    using True SetSamplesPerPixel_records ucast_16_32_eq_1 by metis
  then show ?thesis
    using True SetBitsPerSample_accept [OF True, of pf] by auto
next
  case False
  obtain e where e: "SetBitsPerSample pf img = Inr (False, img\<lparr>err := err img @ e\<rparr>)"
    using SetBitsPerSample_reject [OF False] by blast
  have "\<forall>img0 v. SetSamplesPerPixel pf img0 v = Inr (True, img) \<longrightarrow> v \<noteq> 1"
    using False SetSamplesPerPixel_records ucast_16_32_eq_1 by metis
  then show ?thesis
    using False e by auto
qed

lemma write_tag_spp:
  "write_tag pf img tg ty cnt data msg = Inr (r, img') \<Longrightarrow> samples_per_pixels img' = samples_per_pixels img"
  by (auto simp add: write_tag_def Let_def split: sum.splits if_splits)

lemma do_call_spp:
  assumes "do_call pf img c = Inr (ret, img')"
  shows "samples_per_pixels img' =
           (case c of CallSetSamplesPerPixel v \<Rightarrow> if ret then ucast v else samples_per_pixels img
                    | _ \<Rightarrow> samples_per_pixels img)"
proof (cases c)
  case (CallSetSamplesPerPixel v)
  with assms show ?thesis
    by (cases "4 < v") (auto simp add: SetSamplesPerPixel_reject SetSamplesPerPixel_accept not_less)
next
  case CallSetBitsPerSample
  show ?thesis
  proof (cases "samples_per_pixels img = 1")
    case True
    with assms CallSetBitsPerSample show ?thesis
      by (auto simp add: SetBitsPerSample_accept)
  next
    case False
    from SetBitsPerSample_reject [OF False, of pf] assms CallSetBitsPerSample show ?thesis
      by auto
  qed
next
  case (CallSetImageDescription s)
  with assms show ?thesis
    by (auto simp add: SetImageDescription_def Let_def split: if_splits dest: write_tag_spp)
next
  case (CallSetUniqueCameraModel s)
  with assms show ?thesis
    by (auto simp add: SetUniqueCameraModel_def Let_def split: if_splits dest: write_tag_spp)
next
  case (CallSetSoftware s)
  with assms show ?thesis
    by (auto simp add: SetSoftware_def Let_def split: if_splits dest: write_tag_spp)
next
  case (CallSetImageData bs)
  with assms show ?thesis
    by (auto simp add: SetImageData_def Let_def split: if_splits sum.splits)
qed

lemma successful_spp_Cons:
  "successful_spp ((c, ret) # log) =
     (case c of CallSetSamplesPerPixel v \<Rightarrow> if ret then v # successful_spp log else successful_spp log
              | _ \<Rightarrow> successful_spp log)"
  by (cases c; cases ret) simp_all

lemma run_spp:
  "run pf img cs = Inr (log, img') \<Longrightarrow>
   samples_per_pixels img' =
     (if successful_spp log = [] then samples_per_pixels img else ucast (last (successful_spp log)))"
proof (induction cs arbitrary: img log)
  case Nil
  then show ?case by simp
next
  case (Cons c cs)
  from Cons.prems obtain ret img1 log1 where
    c: "do_call pf img c = Inr (ret, img1)" and r: "run pf img1 cs = Inr (log1, img')"
    and l: "log = (c, ret) # log1"
    by (auto split: sum.splits)
  note ih = Cons.IH [OF r]
  show ?case
    unfolding l successful_spp_Cons
    using ih do_call_spp [OF c]
    by (cases c) (auto split: if_splits)
qed

text \<open>
  C8, as amended: after any sequence of setter calls on a new image,
  \<open>SetBitsPerSample()\<close> returns, and it returns true exactly when the most recent
  \<open>SetSamplesPerPixel\<close> call that returned true had the value 1, which is when the
  recorded samples-per-pixel is 1. On success the recorded bits-per-sample is the one
  value 16 and the BITS_PER_SAMPLE tag is appended with count 1; on failure neither
  changes.
\<close>

theorem SetBitsPerSample_iff:
  assumes "run pf (DNGImage_new pf) cs = Inr (log, img)"
  shows "\<exists>ret img'. SetBitsPerSample pf img = Inr (ret, img')
      \<and> (ret \<longleftrightarrow> successful_spp log \<noteq> [] \<and> last (successful_spp log) = 1)
      \<and> (ret \<longleftrightarrow> samples_per_pixels img = 1)
      \<and> (ret \<longrightarrow> bits_per_samples img' = [16]
            \<and> ifd_tags img' = ifd_tags img @
                 [\<lparr>tag = TIFFTAG_BITS_PER_SAMPLE, type = TIFF_SHORT, count = 1,
                   offset_or_value =
                     (let bps = (if swap_endian img then swap2 (host_big_endian pf) 16 else 16)
                      in if host_big_endian pf then push_bit 16 (ucast bps) else ucast bps)\<rparr>])
      \<and> (\<not> ret \<longrightarrow> bits_per_samples img' = bits_per_samples img \<and> ifd_tags img' = ifd_tags img)"
proof -
  have spp: "samples_per_pixels img = 1 \<longleftrightarrow> successful_spp log \<noteq> [] \<and> last (successful_spp log) = 1"
    using run_spp [OF assms] by (simp add: DNGImage_new_def ucast_16_32_eq_1)
  show ?thesis
  proof (cases "samples_per_pixels img = 1")
    case True
    then show ?thesis
      using spp SetBitsPerSample_accept [OF True, of pf] by auto
  next
    case False
    obtain e where e: "SetBitsPerSample pf img = Inr (False, img\<lparr>err := err img @ e\<rparr>)"
      using SetBitsPerSample_reject [OF False] by blast
    show ?thesis
      using False spp e by auto
  qed
qed

theorem SetBitsPerSample_iff_witness:
  "\<exists>log img img'.
      run le_debug (DNGImage_new le_debug) [CallSetSamplesPerPixel 2, CallSetSamplesPerPixel 1]
        = Inr (log, img)
    \<and> successful_spp log = [2, 1]
    \<and> SetBitsPerSample le_debug img = Inr (True, img')
    \<and> bits_per_samples img' = [16]"
proof -
  obtain log img where r:
    "run le_debug (DNGImage_new le_debug) [CallSetSamplesPerPixel 2, CallSetSamplesPerPixel 1]
       = Inr (log, img)"
    and l: "log = [(CallSetSamplesPerPixel 2, True), (CallSetSamplesPerPixel 1, True)]"
    by (simp add: SetSamplesPerPixel_accept)
  from SetBitsPerSample_iff [OF r] r l show ?thesis
    by auto
qed

text \<open>
  C8 as stated fails: \<open>SetSamplesPerPixel(1)\<close> and then \<open>SetSamplesPerPixel(2)\<close> both
  return true, so a call with the value 1 has succeeded before, and
  \<open>SetBitsPerSample()\<close> returns false.
\<close>

theorem SetBitsPerSample_earlier_call_counterexample:
  "run le_debug (DNGImage_new le_debug) [CallSetSamplesPerPixel 1, CallSetSamplesPerPixel 2]
     = Inr ([(CallSetSamplesPerPixel 1, True), (CallSetSamplesPerPixel 2, True)],
            (DNGImage_new le_debug)
              \<lparr>ifd_tags :=
                 [\<lparr>tag = TIFFTAG_SAMPLES_PER_PIXEL, type = TIFF_SHORT, count = 1, offset_or_value = 1\<rparr>,
                  \<lparr>tag = TIFFTAG_SAMPLES_PER_PIXEL, type = TIFF_SHORT, count = 1, offset_or_value = 2\<rparr>],
               num_fields := 2, samples_per_pixels := 2\<rparr>)
   \<and> 1 \<in> set (successful_spp [(CallSetSamplesPerPixel 1, True), (CallSetSamplesPerPixel 2, True)])
   \<and> SetBitsPerSample le_debug
        ((DNGImage_new le_debug)
           \<lparr>ifd_tags :=
              [\<lparr>tag = TIFFTAG_SAMPLES_PER_PIXEL, type = TIFF_SHORT, count = 1, offset_or_value = 1\<rparr>,
               \<lparr>tag = TIFFTAG_SAMPLES_PER_PIXEL, type = TIFF_SHORT, count = 1, offset_or_value = 2\<rparr>],
            num_fields := 2, samples_per_pixels := 2\<rparr>)
     = Inr (False,
            (DNGImage_new le_debug)
              \<lparr>ifd_tags :=
                 [\<lparr>tag = TIFFTAG_SAMPLES_PER_PIXEL, type = TIFF_SHORT, count = 1, offset_or_value = 1\<rparr>,
                  \<lparr>tag = TIFFTAG_SAMPLES_PER_PIXEL, type = TIFF_SHORT, count = 1, offset_or_value = 2\<rparr>],
               num_fields := 2, samples_per_pixels := 2,
               err := ''Samples per pixel mismatch. 1 is given for SetBitsPerSample(), but SamplesPerPixel is set to 2'' @ nl\<rparr>)"
  by (simp add: SetSamplesPerPixel_accept SetBitsPerSample_def le_debug_def DNGImage_new_def
        to_dec.simps)

theorem SetSamplesPerPixel_range_witness:
  "(4 :: 16 word) < 5
   \<and> SetSamplesPerPixel le_debug (DNGImage_new le_debug) 5 =
       Inr (False, (DNGImage_new le_debug)\<lparr>err :=
              ''Samples per pixel must be less than or equal to 4, but got 5.'' @ nl\<rparr>)
   \<and> (0 :: 16 word) \<le> 4
   \<and> (\<exists>img'. SetSamplesPerPixel le_debug (DNGImage_new le_debug) 0 = Inr (True, img')
         \<and> samples_per_pixels img' = 0
         \<and> length (ifd_tags img') = 1
         \<and> (\<forall>ofs. \<exists>e. WriteDataToStream le_debug img' ofs
                      = Inr (False, img'\<lparr>err := err img' @ e\<rparr>, ofs)))"
  using SetSamplesPerPixel_range [of 5 le_debug "DNGImage_new le_debug"]
        SetSamplesPerPixel_range [of 0 le_debug "DNGImage_new le_debug"]
  by (simp add: to_dec.simps DNGImage_new_def)

lemma find_zero_None: "(find_zero bs i = None) = (0 \<notin> set bs)"
  by (induction bs arbitrary: i) auto

lemma find_zero_Some_ex: "0 \<in> set bs \<Longrightarrow> \<exists>j. find_zero bs i = Some j"
  by (induction bs arbitrary: i) auto

lemma swap_strip_ok:
  assumes "strip_ok img"
  shows "\<exists>d. swap_strip k img (data_os img) = Inr d"
proof -
  have "k * (data_strip_bytes img div k) \<le> data_strip_bytes img"
    by simp
  then have "\<not> length (data_os img) < data_strip_offset img + k * (data_strip_bytes img div k)"
    using assms unfolding strip_ok_def by linarith
  then show ?thesis
    by (simp add: swap_strip_def Let_def)
qed

lemma WriteDataToStream_fail:
  assumes "\<not> (data_os img \<noteq> [] \<and> bits_per_samples img \<noteq> [] \<and> 0 \<notin> set (bits_per_samples img)
      \<and> samples_per_pixels img \<noteq> 0)"
  shows "\<exists>e. e \<noteq> [] \<and> WriteDataToStream pf img ofs = Inr (False, img\<lparr>err := err img @ e\<rparr>, ofs)"
proof -
  consider (a) "data_os img = []"
    | (b) "data_os img \<noteq> []" "bits_per_samples img = []"
    | (c) "data_os img \<noteq> []" "bits_per_samples img \<noteq> []" "0 \<in> set (bits_per_samples img)"
    | (d) "data_os img \<noteq> []" "bits_per_samples img \<noteq> []" "0 \<notin> set (bits_per_samples img)"
          "samples_per_pixels img = 0"
    using assms by blast
  then show ?thesis
  proof cases
    case a
    then have "WriteDataToStream pf img ofs =
        Inr (False, img\<lparr>err := err img @ (''Empty IFD data and image data.'' @ nl)\<rparr>, ofs)"
      by (simp add: WriteDataToStream_def)
    then show ?thesis by (intro exI conjI) (auto simp add: nl_def)
  next
    case b
    then have "WriteDataToStream pf img ofs =
        Inr (False, img\<lparr>err := err img @ (''BitsPerSample is not set'' @ nl)\<rparr>, ofs)"
      by (simp add: WriteDataToStream_def)
    then show ?thesis by (intro exI conjI) (auto simp add: nl_def)
  next
    case c
    then obtain j where "find_zero (bits_per_samples img) 0 = Some j"
      using find_zero_Some_ex by blast
    with c have "WriteDataToStream pf img ofs =
        Inr (False, img\<lparr>err := err img @ (to_dec j @ [CHR 0x27] @ ''th BitsPerSample is zero'')\<rparr>, ofs)"
      by (simp add: WriteDataToStream_def)
    then show ?thesis by (intro exI conjI) auto
  next
    case d
    then have "find_zero (bits_per_samples img) 0 = None"
      by (simp add: find_zero_None)
    with d have "WriteDataToStream pf img ofs =
        Inr (False, img\<lparr>err := err img @ ''SamplesPerPixels is not set or zero.''\<rparr>, ofs)"
      by (simp add: WriteDataToStream_def)
    then show ?thesis by (intro exI conjI) auto
  qed
qed

lemma write_ifd_entries_ok:
  "tags_ok pf tags \<Longrightarrow> \<exists>os'. write_ifd_entries pf swp base tags ifd_os = Inr os'"
proof (induction tags arbitrary: ifd_os)
  case Nil
  then show ?case by simp
next
  case (Cons t tags)
  then have ok: "tags_ok pf tags" and here: "ndebug pf \<or> tag_len (type t) (count t) \<notin> {0, 3}"
    by (auto simp add: tags_ok_def)
  have len: "tag_len (type t) (count t) > 4 \<or> tag_len (type t) (count t) = 1
      \<or> tag_len (type t) (count t) = 2 \<or> tag_len (type t) (count t) = 4
      \<or> tag_len (type t) (count t) \<in> {0, 3}"
    by auto
  show ?case
    using len here Cons.IH [OF ok] by (auto simp add: Let_def)
qed

lemma tag_len_long_1: "tag_len TIFF_LONG 1 = 4"
  by (simp add: tag_len_def TIFF_LONG_def typesize_table_def)

lemma WriteIFDToStream_fail:
  "num_fields img = 0 \<or> ifd_tags img = [] \<Longrightarrow>
   WriteIFDToStream pf img base so ofs = Inr (False, img\<lparr>err := err img @ (''No TIFF Tags.'' @ nl)\<rparr>, ofs)"
  by (auto simp add: WriteIFDToStream_def)

lemma image_ok_new: "image_ok pf (DNGImage_new pf)"
  by (simp add: image_ok_def tags_ok_def strip_ok_def DNGImage_new_def)

lemma WriteTIFFTag_preserves:
  assumes "WriteTIFFTag pf tg ty cnt data tags data_out = Inr (r, tags', os')" "tags_ok pf tags"
  shows "tags_ok pf tags' \<and> (case data_out of None \<Rightarrow> os' = None | Some os \<Rightarrow> (\<exists>d. os' = Some (os @ d)))"
  using assms
  by (auto simp add: WriteTIFFTag_def Let_def tags_ok_def split: if_splits option.splits)

lemma write_tag_preserves:
  assumes "write_tag pf img tg ty cnt data msg = Inr (r, img')" "image_ok pf img"
  shows "image_ok pf img'"
proof -
  obtain r0 tags' os' where w: "WriteTIFFTag pf tg ty cnt data (ifd_tags img) (Some (data_os img)) = Inr (r0, tags', os')"
    using assms(1) by (auto simp add: write_tag_def split: sum.splits)
  from WriteTIFFTag_preserves [OF w] assms(2) obtain d where
    t: "tags_ok pf tags'" and o: "os' = Some (data_os img @ d)"
    by (auto simp add: image_ok_def)
  from assms w t o show ?thesis
    by (auto simp add: write_tag_def Let_def image_ok_def strip_ok_def split: if_splits)
qed

lemma SetSamplesPerPixel_preserves:
  "SetSamplesPerPixel pf img v = Inr (r, img') \<Longrightarrow> image_ok pf img \<Longrightarrow> image_ok pf img'"
  by (auto simp add: SetSamplesPerPixel_def image_ok_def strip_ok_def
        split: if_splits sum.splits dest!: write_tag_preserves)

lemma SetBitsPerSample_preserves:
  "SetBitsPerSample pf img = Inr (r, img') \<Longrightarrow> image_ok pf img \<Longrightarrow> image_ok pf img'"
  by (auto simp add: SetBitsPerSample_def Let_def image_ok_def strip_ok_def
        split: if_splits sum.splits option.splits dest!: write_tag_preserves)

lemma SetSoftware_preserves:
  "SetSoftware pf img s = Inr (r, img') \<Longrightarrow> image_ok pf img \<Longrightarrow> image_ok pf img'"
  by (auto simp add: SetSoftware_def Let_def split: if_splits dest: write_tag_preserves)

lemma SetImageDescription_preserves:
  "SetImageDescription pf img s = Inr (r, img') \<Longrightarrow> image_ok pf img \<Longrightarrow> image_ok pf img'"
  by (auto simp add: SetImageDescription_def Let_def split: if_splits dest: write_tag_preserves)

lemma SetUniqueCameraModel_preserves:
  "SetUniqueCameraModel pf img s = Inr (r, img') \<Longrightarrow> image_ok pf img \<Longrightarrow> image_ok pf img'"
  by (auto simp add: SetUniqueCameraModel_def Let_def split: if_splits dest: write_tag_preserves)

lemma SetImageData_preserves:
  assumes "SetImageData pf img d = Inr (r, img')" "image_ok pf img"
  shows "image_ok pf img'"
proof (cases "length d < 1")
  case True
  with assms show ?thesis by (simp add: SetImageData_def)
next
  case False
  let ?img1 = "img\<lparr>data_strip_offset := length (data_os img), data_strip_bytes := length d,
                    data_os := data_os img @ d\<rparr>"
  obtain r0 tags' os' where w: "WriteTIFFTag pf TIFFTAG_STRIP_BYTE_COUNTS TIFF_LONG 1
      (store_bytes (host_big_endian pf) 4 (of_nat (length d) :: 32 word)) (ifd_tags ?img1) None = Inr (r0, tags', os')"
    using assms(1) False by (auto simp add: SetImageData_def Let_def split: sum.splits)
  from WriteTIFFTag_preserves [OF w] assms(2) have t: "tags_ok pf tags'"
    by (simp add: image_ok_def)
  from assms(1) False w t show ?thesis
    by (auto simp add: SetImageData_def Let_def image_ok_def strip_ok_def split: if_splits)
qed

lemma do_call_preserves:
  "do_call pf img c = Inr (r, img') \<Longrightarrow> image_ok pf img \<Longrightarrow> image_ok pf img'"
  by (cases c)
     (auto intro: SetSamplesPerPixel_preserves SetBitsPerSample_preserves
        SetImageDescription_preserves SetUniqueCameraModel_preserves SetSoftware_preserves
        SetImageData_preserves)

lemma run_preserves:
  "run pf img cs = Inr (log, img') \<Longrightarrow> image_ok pf img \<Longrightarrow> image_ok pf img'"
proof (induction cs arbitrary: img log)
  case Nil
  then show ?case by simp
next
  case (Cons c cs)
  from Cons.prems(1) obtain r img1 log1 where
    c: "do_call pf img c = Inr (r, img1)" and rest: "run pf img1 cs = Inr (log1, img')"
    by (auto split: sum.splits)
  from do_call_preserves [OF c Cons.prems(2)] have "image_ok pf img1" .
  with Cons.IH [OF rest] show ?case .
qed

lemma run_image_ok:
  "run pf (DNGImage_new pf) cs = Inr (log, img) \<Longrightarrow> image_ok pf img"
  using run_preserves image_ok_new by blast

subsection \<open>WriteToFile\<close>


lemma length_swap_units:
  "p + k * n \<le> length data \<Longrightarrow> length (swap_units k p n data) = length data"
proof (induction n arbitrary: p data)
  case 0
  then show ?case by simp
next
  case (Suc n)
  let ?d = "take p data @ rev (take k (drop p data)) @ drop (p + k) data"
  have pk: "p + k \<le> length data"
    using Suc.prems by simp
  then have len: "length ?d = length data"
    by simp
  have "(p + k) + k * n \<le> length ?d"
    using Suc.prems len by simp
  from Suc.IH [OF this] len show ?case
    by simp
qed

lemma swap_strip_eq:
  assumes "strip_ok img"
  shows "swap_strip k img (data_os img) =
           Inr (swap_units k (data_strip_offset img) (data_strip_bytes img div k) (data_os img))"
    and "length (swap_units k (data_strip_offset img) (data_strip_bytes img div k) (data_os img))
           = length (data_os img)"
proof -
  have "k * (data_strip_bytes img div k) \<le> data_strip_bytes img"
    by simp
  then have le: "data_strip_offset img + k * (data_strip_bytes img div k) \<le> length (data_os img)"
    using assms unfolding strip_ok_def by linarith
  then show "swap_strip k img (data_os img) =
           Inr (swap_units k (data_strip_offset img) (data_strip_bytes img div k) (data_os img))"
    by (simp add: swap_strip_def Let_def)
  from le show "length (swap_units k (data_strip_offset img) (data_strip_bytes img div k) (data_os img))
           = length (data_os img)"
    by (rule length_swap_units)
qed

lemma WriteDataToStream_ok:
  assumes "strip_ok img" "data_os img \<noteq> []" "bits_per_samples img \<noteq> []"
      "0 \<notin> set (bits_per_samples img)" "samples_per_pixels img \<noteq> 0"
  shows "WriteDataToStream pf img ofs =
     Inr (True, img, ofs @
       (let data = data_os img;
            bps = (ucast (bits_per_samples img ! 0) :: 32 word);
            p = data_strip_offset img;
            n = data_strip_bytes img
        in if n \<noteq> 0 \<and> swap_endian img then
             (if bps = 16 then swap_units 2 p (n div 2) data
              else if bps = 32 then swap_units 4 p (n div 4) data
              else if bps = 64 then swap_units 8 p (n div 8) data
              else data)
           else data))"
proof -
  have fz: "find_zero (bits_per_samples img) 0 = None"
    using assms by (simp add: find_zero_None)
  show ?thesis
    using assms fz swap_strip_eq(1) [OF assms(1)]
    by (simp add: WriteDataToStream_def Let_def)
qed

lemma length_written_data:
  assumes "strip_ok img"
  shows "length
       (let data = data_os img;
            bps = (ucast (bits_per_samples img ! 0) :: 32 word);
            p = data_strip_offset img;
            n = data_strip_bytes img
        in if n \<noteq> 0 \<and> swap_endian img then
             (if bps = 16 then swap_units 2 p (n div 2) data
              else if bps = 32 then swap_units 4 p (n div 4) data
              else if bps = 64 then swap_units 8 p (n div 8) data
              else data)
           else data) = length (data_os img)"
  using swap_strip_eq(2) [OF assms] by (simp add: Let_def)

lemma std_sort_set: "std_sort_ok pf \<Longrightarrow> set (std_sort pf tags) = set tags"
proof -
  assume "std_sort_ok pf"
  then have c: "\<And>t. count_list (std_sort pf tags) t = count_list tags t"
    by (simp add: std_sort_ok_def)
  have "\<And>t. (t \<in> set (std_sort pf tags)) = (t \<in> set tags)"
    using c count_list_0_iff by metis
  then show ?thesis
    by blast
qed

lemma std_sort_length:
  assumes "std_sort_ok pf"
  shows "length (std_sort pf tags) = length tags"
proof -
  have c: "\<And>t. count_list (std_sort pf tags) t = count_list tags t"
    using assms by (simp add: std_sort_ok_def)
  have s: "set (std_sort pf tags) = set tags"
    using assms by (rule std_sort_set)
  have "length (std_sort pf tags) = sum (count_list (std_sort pf tags)) (set tags)"
    using s by (simp add: sum_count_set)
  also have "\<dots> = sum (count_list tags) (set tags)"
    using c by simp
  also have "\<dots> = length tags"
    by (simp add: sum_count_set)
  finally show ?thesis .
qed

lemma Write_lengths:
  "length (Write1 b os) = Suc (length os)"
  "length (Write2 be v os s) = length os + 2"
  "length (Write4 be x os s) = length os + 4"
  by (simp_all add: Write1_def Write2_def Write4_def Let_def)

lemma length_write_ifd_entries:
  "list_all (\<lambda>t. tag_len (type t) (count t) \<notin> {0, 3}) tags \<Longrightarrow>
   write_ifd_entries pf swp base tags ifd_os = Inr r \<Longrightarrow>
   length r = length ifd_os + 12 * length tags"
proof (induction tags arbitrary: ifd_os)
  case Nil
  then show ?case by simp
next
  case (Cons t tags)
  then have ok: "list_all (\<lambda>t. tag_len (type t) (count t) \<notin> {0, 3}) tags"
    and here: "tag_len (type t) (count t) \<noteq> 0" "tag_len (type t) (count t) \<noteq> 3"
    by auto
  have len: "tag_len (type t) (count t) > 4 \<or> tag_len (type t) (count t) = 1
      \<or> tag_len (type t) (count t) = 2 \<or> tag_len (type t) (count t) = 4"
    using here by linarith
  from len Cons.prems(2) show ?case
    by (auto simp add: Let_def Write_lengths dest!: Cons.IH [OF ok])
qed


lemma WriteIFDToStream_ok:
  assumes "tags_ok pf (ifd_tags img)" "std_sort_ok pf" "num_fields img \<noteq> 0" "ifd_tags img \<noteq> []"
  shows "\<exists>ifd.
      write_ifd_entries pf (swap_endian img) base
        (std_sort pf (ifd_tags img @
           [\<lparr>tag = TIFFTAG_STRIP_OFFSET, type = TIFF_LONG, count = 1,
             offset_or_value = so + of_nat kHeaderSize\<rparr>]))
        (Write2 (host_big_endian pf) (of_nat (Suc (length (ifd_tags img)))) [] (swap_endian img))
        = Inr ifd
    \<and> WriteIFDToStream pf img base so ofs = Inr (True, img, ofs @ ifd)
    \<and> (list_all (\<lambda>t. tag_len (type t) (count t) \<notin> {0, 3}) (ifd_tags img)
         \<longrightarrow> length ifd = 2 + 12 * Suc (length (ifd_tags img)))"
proof -
  let ?st = "\<lparr>tag = TIFFTAG_STRIP_OFFSET, type = TIFF_LONG, count = 1,
                offset_or_value = so + of_nat kHeaderSize\<rparr>"
  let ?tags = "std_sort pf (ifd_tags img @ [?st])"
  let ?os = "Write2 (host_big_endian pf) (of_nat (Suc (length (ifd_tags img)))) [] (swap_endian img)"
  have set: "set ?tags = set (ifd_tags img @ [?st])"
    using assms(2) by (rule std_sort_set)
  have len: "length ?tags = Suc (length (ifd_tags img))"
    using std_sort_length [OF assms(2), of "ifd_tags img @ [?st]"] by simp
  have "tags_ok pf ?tags"
    using assms(1) set by (auto simp add: tags_ok_def list_all_iff tag_len_long_1)
  from write_ifd_entries_ok [OF this] obtain ifd where
    w: "write_ifd_entries pf (swap_endian img) base ?tags ?os = Inr ifd"
    by blast
  have r: "WriteIFDToStream pf img base so ofs = Inr (True, img, ofs @ ifd)"
    using assms(3,4) w len by (simp add: WriteIFDToStream_def Let_def)
  have l: "list_all (\<lambda>t. tag_len (type t) (count t) \<notin> {0, 3}) (ifd_tags img)
         \<longrightarrow> length ifd = 2 + 12 * Suc (length (ifd_tags img))"
  proof
    assume "list_all (\<lambda>t. tag_len (type t) (count t) \<notin> {0, 3}) (ifd_tags img)"
    then have "list_all (\<lambda>t. tag_len (type t) (count t) \<notin> {0, 3}) ?tags"
      using set by (auto simp add: list_all_iff tag_len_long_1)
    from length_write_ifd_entries [OF this w] len
    show "length ifd = 2 + 12 * Suc (length (ifd_tags img))"
      by (simp add: Write_lengths)
  qed
  from w r l show ?thesis
    by blast
qed

lemma header_bytes:
  "Write4 be x (snd (WriteTIFFVersionHeader [] b)) s =
     (if b then [0x4d, 0x4d, 0x0, 0x2a] else [0x49, 0x49, 0x2a, 0x0]) @ Write4 be x [] s"
  by (simp add: Write4_def WriteTIFFVersionHeader_def Write1_def Let_def)

lemma swap4_zero: "swap4 be 0 = 0"
  by (simp add: swap4_def store_bytes_4_zero load_bytes_def Let_def)

lemma end_of_ifd: "store_bytes be 4 (if s then swap4 be 0 else (0 :: 32 word)) = [0, 0, 0, 0]"
  by (simp add: swap4_zero store_bytes_4_zero)

lemma count_list_insort_key:
  "count_list (insort_key f x xs) t = count_list (x # xs) t"
  by (induction xs) auto

lemma count_list_sort_key:
  "count_list (sort_key f xs) t = count_list xs t"
  by (induction xs) (simp_all add: count_list_insort_key)

lemma std_sort_ok_stable:
  "std_sort pf = sort_key tag \<Longrightarrow> std_sort_ok pf"
  by (simp add: std_sort_ok_def sorted_sort_key count_list_sort_key)

lemma std_sort_ok_le_debug: "std_sort_ok le_debug"
  by (rule std_sort_ok_stable) (simp add: le_debug_def)

text \<open>
  C7, as amended: for every call of \<open>DNGWriter::WriteToFile(image, err, count)\<close> on an image
  built by the constructor and the setters, on a platform whose \<open>std::sort\<close> sorts. The
  outcome is decided by the image alone.

  If the image is writable (image data present, bits per sample set and non-zero, samples
  per pixel non-zero, at least one tag) and \<open>count\<close> is non-null, the call returns a non-null
  buffer and stores the byte count into \<open>*count\<close>; \<open>*err\<close> and the image are untouched.
  The buffer holds the produced file followed by a terminating zero: the four bytes of the
  TIFF version header, the four bytes of the IFD offset \<open>8 + data size\<close>, the image data
  (the strip byte-swapped when the image asks for it), the IFD (the number of tags, then
  the sorted tags with the STRIP_OFFSET tag among them, twelve bytes each when no tag has
  length 0 or 3), and four zero bytes. The count is \<open>8 + data size + IFD size + 4\<close>.
  If the image is writable and \<open>count\<close> is null, the call dereferences the null pointer.

  Otherwise the call returns null and leaves \<open>count\<close> as it was, null or not; the image's
  error text grows by a non-empty message, and, when \<open>err\<close> is non-null, \<open>*err\<close> is
  "Failed to write image data: " or "Failed to write IFD: " followed by that error text.
\<close>

theorem WriteToFile_outcomes:
  assumes "image_ok pf img" and "std_sort_ok pf"
  shows "if writable img then
           (\<exists>ifd.
              write_ifd_entries pf (swap_endian img) 0
                (std_sort pf (ifd_tags img @
                   [\<lparr>tag = TIFFTAG_STRIP_OFFSET, type = TIFF_LONG, count = 1,
                     offset_or_value = of_nat (data_strip_offset img) + of_nat kHeaderSize\<rparr>]))
                (Write2 (host_big_endian pf) (of_nat (Suc (length (ifd_tags img)))) []
                   (swap_endian img))
                = Inr ifd
            \<and> (list_all (\<lambda>t. tag_len (type t) (count t) \<notin> {0, 3}) (ifd_tags img)
                 \<longrightarrow> length ifd = 2 + 12 * Suc (length (ifd_tags img)))
            \<and> WriteToFile pf w img err_cell count_cell =
                (case count_cell of
                   None \<Rightarrow> Inl NullDereference
                 | Some c \<Rightarrow>
                     Inr (Some (((if writer_dng_big_endian w then [0x4d, 0x4d, 0x0, 0x2a]
                                  else [0x49, 0x49, 0x2a, 0x0])
                                 @ Write4 (host_big_endian pf)
                                     (of_nat kHeaderSize + of_nat (length (data_os img))) []
                                     (writer_swap_endian w)
                                 @ (let data = data_os img;
                                        bps = (ucast (bits_per_samples img ! 0) :: 32 word);
                                        p = data_strip_offset img;
                                        n = data_strip_bytes img
                                    in if n \<noteq> 0 \<and> swap_endian img then
                                         (if bps = 16 then swap_units 2 p (n div 2) data
                                          else if bps = 32 then swap_units 4 p (n div 4) data
                                          else if bps = 64 then swap_units 8 p (n div 8) data
                                          else data)
                                       else data)
                                 @ ifd @ [0, 0, 0, 0]) @ [0]),
                          img, err_cell,
                          Some (of_nat (8 + length (data_os img) + length ifd + 4)))))
         else
           (\<exists>e prefix.
              e \<noteq> []
            \<and> prefix \<in> {''Failed to write image data: '', ''Failed to write IFD: ''}
            \<and> WriteToFile pf w img err_cell count_cell =
                Inr (None, img\<lparr>err := err img @ e\<rparr>,
                     map_option (\<lambda>_. prefix @ err img @ e) err_cell, count_cell))"
proof -
  let ?be = "host_big_endian pf"
  let ?hdr = "Write4 ?be (of_nat kHeaderSize + of_nat (length (data_os img)))
                (snd (WriteTIFFVersionHeader [] (writer_dng_big_endian w))) (writer_swap_endian w)"
  let ?data = "(let data = data_os img;
                   bps = (ucast (bits_per_samples img ! 0) :: 32 word);
                   p = data_strip_offset img;
                   n = data_strip_bytes img
               in if n \<noteq> 0 \<and> swap_endian img then
                    (if bps = 16 then swap_units 2 p (n div 2) data
                     else if bps = 32 then swap_units 4 p (n div 4) data
                     else if bps = 64 then swap_units 8 p (n div 8) data
                     else data)
                  else data)"
  have hl: "length ?hdr = kHeaderSize"
    by (simp add: Write4_def WriteTIFFVersionHeader_def Write1_def kHeaderSize_def Let_def)
  have fst_hdr: "fst (WriteTIFFVersionHeader [] (writer_dng_big_endian w)) = True"
    by (simp add: WriteTIFFVersionHeader_def)
  have unf0: "WriteToFile pf w img err_cell count_cell =
      (case WriteDataToStream pf img ?hdr of
         Inl a \<Rightarrow> Inl a
       | Inr (ok1, img1, ofs1) \<Rightarrow>
           if \<not> ok1 then
             Inr (None, img1,
                  map_option (\<lambda>_. ''Failed to write image data: '' @ err img1) err_cell,
                  count_cell)
           else
             (case WriteIFDToStream pf img1 0 (of_nat (data_strip_offset img)) ofs1 of
                Inl a \<Rightarrow> Inl a
              | Inr (ok2, img2, ofs2) \<Rightarrow>
                  if \<not> ok2 then
                    Inr (None, img2,
                         map_option (\<lambda>_. ''Failed to write IFD: '' @ err img2) err_cell,
                         count_cell)
                  else
                    (case count_cell of
                       None \<Rightarrow> Inl NullDereference
                     | Some c \<Rightarrow>
                         Inr (Some ((ofs2 @ store_bytes ?be 4
                                       (if writer_swap_endian w then swap4 ?be 0 else 0)) @ [0]),
                              img2, err_cell,
                              Some (of_nat (length (ofs2 @ store_bytes ?be 4
                                       (if writer_swap_endian w then swap4 ?be 0
                                        else (0 :: 32 word)))))))))"
    using hl fst_hdr
    by (simp add: WriteToFile_def Let_def split_beta split: sum.splits prod.splits option.splits)
  note unf = unf0 [unfolded end_of_ifd]
  show ?thesis
  proof (cases "data_os img \<noteq> [] \<and> bits_per_samples img \<noteq> [] \<and> 0 \<notin> set (bits_per_samples img)
      \<and> samples_per_pixels img \<noteq> 0")
    case False
    from WriteDataToStream_fail [OF False, of pf ?hdr] obtain e where
      e: "e \<noteq> []" "WriteDataToStream pf img ?hdr = Inr (False, img\<lparr>err := err img @ e\<rparr>, ?hdr)"
      by blast
    have nw: "\<not> writable img"
      using False by (auto simp add: writable_def)
    have "WriteToFile pf w img err_cell count_cell =
        Inr (None, img\<lparr>err := err img @ e\<rparr>,
             map_option (\<lambda>_. ''Failed to write image data: '' @ err img @ e) err_cell, count_cell)"
      using e by (simp add: unf)
    then have "\<exists>e prefix.
              e \<noteq> []
            \<and> prefix \<in> {''Failed to write image data: '', ''Failed to write IFD: ''}
            \<and> WriteToFile pf w img err_cell count_cell =
                Inr (None, img\<lparr>err := err img @ e\<rparr>,
                     map_option (\<lambda>_. prefix @ err img @ e) err_cell, count_cell)"
      using e(1) by (intro exI [of _ e] exI [of _ "''Failed to write image data: ''"]) simp
    then show ?thesis
      using nw by simp
  next
    case True
    have so: "strip_ok img" and tk: "tags_ok pf (ifd_tags img)"
      using assms by (simp_all add: image_ok_def)
    have d: "WriteDataToStream pf img ?hdr = Inr (True, img, ?hdr @ ?data)"
      using WriteDataToStream_ok [OF so, of pf ?hdr] True by blast
    have dl: "length ?data = length (data_os img)"
      using so by (rule length_written_data)
    show ?thesis
    proof (cases "num_fields img = 0 \<or> ifd_tags img = []")
      case True
      have nw: "\<not> writable img"
        using True by (auto simp add: writable_def)
      have ne: "''No TIFF Tags.'' @ nl \<noteq> []" by simp
      have "WriteToFile pf w img err_cell count_cell =
          Inr (None, img\<lparr>err := err img @ (''No TIFF Tags.'' @ nl)\<rparr>,
               map_option (\<lambda>_. ''Failed to write IFD: '' @ err img @ (''No TIFF Tags.'' @ nl)) err_cell,
               count_cell)"
        using d WriteIFDToStream_fail [OF True, of pf 0 "of_nat (data_strip_offset img)" "?hdr @ ?data"]
        by (simp add: unf)
      then have "\<exists>e prefix.
              e \<noteq> []
            \<and> prefix \<in> {''Failed to write image data: '', ''Failed to write IFD: ''}
            \<and> WriteToFile pf w img err_cell count_cell =
                Inr (None, img\<lparr>err := err img @ e\<rparr>,
                     map_option (\<lambda>_. prefix @ err img @ e) err_cell, count_cell)"
        using ne
        by (intro exI [of _ "''No TIFF Tags.'' @ nl"] exI [of _ "''Failed to write IFD: ''"]) simp
      then show ?thesis
        using nw by simp
    next
      case False
      then have nf: "num_fields img \<noteq> 0" and nt: "ifd_tags img \<noteq> []"
        by simp_all
      have wr: "writable img"
        using \<open>data_os img \<noteq> [] \<and> bits_per_samples img \<noteq> [] \<and> 0 \<notin> set (bits_per_samples img)
      \<and> samples_per_pixels img \<noteq> 0\<close> nf nt by (simp add: writable_def)
      from WriteIFDToStream_ok [OF tk assms(2) nf nt, of 0 "of_nat (data_strip_offset img)" "?hdr @ ?data"]
      obtain ifd where
        w: "write_ifd_entries pf (swap_endian img) 0
              (std_sort pf (ifd_tags img @
                 [\<lparr>tag = TIFFTAG_STRIP_OFFSET, type = TIFF_LONG, count = 1,
                   offset_or_value = of_nat (data_strip_offset img) + of_nat kHeaderSize\<rparr>]))
              (Write2 ?be (of_nat (Suc (length (ifd_tags img)))) [] (swap_endian img)) = Inr ifd"
        and i: "WriteIFDToStream pf img 0 (of_nat (data_strip_offset img)) (?hdr @ ?data)
              = Inr (True, img, (?hdr @ ?data) @ ifd)"
        and l: "list_all (\<lambda>t. tag_len (type t) (count t) \<notin> {0, 3}) (ifd_tags img)
                 \<longrightarrow> length ifd = 2 + 12 * Suc (length (ifd_tags img))"
        by blast
      have cnt: "length (((?hdr @ ?data) @ ifd) @ [0, 0, 0, 0])
          = 8 + length (data_os img) + length ifd + 4"
        using hl dl by (simp add: kHeaderSize_def)
      have res: "WriteToFile pf w img err_cell count_cell =
          (case count_cell of
             None \<Rightarrow> Inl NullDereference
           | Some c \<Rightarrow>
               Inr (Some ((((?hdr @ ?data) @ ifd) @ [0, 0, 0, 0]) @ [0]), img, err_cell,
                    Some (of_nat (length (((?hdr @ ?data) @ ifd) @ [0, 0, 0, 0])))))"
        using d i by (simp add: unf split: option.splits)
      show ?thesis
        unfolding res cnt using wr w l
        by (simp add: header_bytes split: option.splits)
    qed
  qed
qed

theorem WriteToFile_outcomes_witness:
  "std_sort_ok le_debug
   \<and> (\<exists>log img ifd.
        run le_debug (DNGImage_new le_debug)
          [CallSetSamplesPerPixel 1, CallSetBitsPerSample, CallSetImageData [0x34, 0x12]]
          = Inr (log, img)
      \<and> image_ok le_debug img \<and> writable img
      \<and> WriteToFile le_debug (DNGWriter_new le_debug True) img None (Some 0)
          = Inr (Some ([77, 77, 0, 42, 0, 0, 0, 10, 18, 52, 0, 4, 1, 2, 0, 3, 0, 0, 0, 1,
                        16, 0, 0, 0, 1, 17, 0, 4, 0, 0, 0, 1, 0, 0, 0, 8, 1, 21, 0, 3, 0,
                        0, 0, 1, 0, 1, 0, 0, 1, 23, 0, 4, 0, 0, 0, 1, 0, 0, 0, 2,
                        0, 0, 0, 0] @ [0]),
                 img, None, Some 64)
      \<and> length ifd = 50
      \<and> Some ([77, 77, 0, 42, 0, 0, 0, 10, 18, 52] @ ifd @ [0, 0, 0, 0] @ [0])
          = fst (projr (WriteToFile le_debug (DNGWriter_new le_debug True) img None (Some 0))))
   \<and> image_ok le_debug (DNGImage_new le_debug) \<and> \<not> writable (DNGImage_new le_debug)
   \<and> (\<exists>img' msg.
        WriteToFile le_debug (DNGWriter_new le_debug True) (DNGImage_new le_debug) (Some []) (Some 7)
          = Inr (None, img', Some msg, Some 7))"
proof -
  let ?w = "DNGWriter_new le_debug True"
  let ?i0 = "DNGImage_new le_debug"
  let ?calls = "[CallSetSamplesPerPixel 1, CallSetBitsPerSample, CallSetImageData [0x34, 0x12]]"
  let ?bytes = "[77, 77, 0, 42, 0, 0, 0, 10, 18, 52, 0, 4, 1, 2, 0, 3, 0, 0, 0, 1,
                16, 0, 0, 0, 1, 17, 0, 4, 0, 0, 0, 1, 0, 0, 0, 8, 1, 21, 0, 3, 0,
                0, 0, 1, 0, 1, 0, 0, 1, 23, 0, 4, 0, 0, 0, 1, 0, 0, 0, 2,
                0, 0, 0, 0] :: byte list"
  have "(case run le_debug ?i0 ?calls of
          Inr (log, img) \<Rightarrow>
            writable img
            \<and> list_all (\<lambda>t. tag_len (type t) (count t) \<noteq> 0 \<and> tag_len (type t) (count t) \<noteq> 3)
                 (ifd_tags img)
            \<and> length (ifd_tags img) = 3
            \<and> Write4 (host_big_endian le_debug)
                 (of_nat kHeaderSize + of_nat (length (data_os img))) [] (writer_swap_endian ?w)
               = [0, 0, 0, 10]
            \<and> (let data = data_os img;
                    bps = (ucast (bits_per_samples img ! 0) :: 32 word);
                    p = data_strip_offset img;
                    n = data_strip_bytes img
                in if n \<noteq> 0 \<and> swap_endian img then
                     (if bps = 16 then swap_units 2 p (n div 2) data
                      else if bps = 32 then swap_units 4 p (n div 4) data
                      else if bps = 64 then swap_units 8 p (n div 8) data
                      else data)
                   else data) = [18, 52]
            \<and> WriteToFile le_debug ?w img None (Some 0)
                = Inr (Some (?bytes @ [0]), img, None, Some 64)
        | Inl _ \<Rightarrow> False)"
    by code_simp
  then obtain log img where
    r: "run le_debug ?i0 ?calls = Inr (log, img)"
    and wr: "writable img"
    and la: "list_all (\<lambda>t. tag_len (type t) (count t) \<notin> {0, 3}) (ifd_tags img)"
    and lt: "length (ifd_tags img) = 3"
    and w4: "Write4 (host_big_endian le_debug)
                 (of_nat kHeaderSize + of_nat (length (data_os img))) [] (writer_swap_endian ?w)
               = [0, 0, 0, 10]"
    and dt: "(let data = data_os img;
                    bps = (ucast (bits_per_samples img ! 0) :: 32 word);
                    p = data_strip_offset img;
                    n = data_strip_bytes img
                in if n \<noteq> 0 \<and> swap_endian img then
                     (if bps = 16 then swap_units 2 p (n div 2) data
                      else if bps = 32 then swap_units 4 p (n div 4) data
                      else if bps = 64 then swap_units 8 p (n div 8) data
                      else data)
                   else data) = [18, 52]"
    and o: "WriteToFile le_debug ?w img None (Some 0) = Inr (Some (?bytes @ [0]), img, None, Some 64)"
    by (auto split: sum.splits)
  have ok: "image_ok le_debug img"
    using r by (rule run_image_ok)
  have ok0: "image_ok le_debug ?i0"
    by (rule image_ok_new)
  have nw: "\<not> writable ?i0"
    by (simp add: writable_def DNGImage_new_def)
  have be: "writer_dng_big_endian ?w"
    by (simp add: DNGWriter_new_def)
  from WriteToFile_outcomes [OF ok std_sort_ok_le_debug, of ?w None "Some 0"]
  obtain ifd where
    l: "length ifd = 2 + 12 * Suc (length (ifd_tags img))"
    and e: "fst (projr (WriteToFile le_debug ?w img None (Some 0)))
       = Some (([77, 77, 0, 42] @ [0, 0, 0, 10] @ [18, 52] @ ifd @ [0, 0, 0, 0]) @ [0])"
    using wr la unfolding w4 dt by (auto simp add: be)
  have s: "\<exists>ifd. length ifd = 50
      \<and> Some ([77, 77, 0, 42, 0, 0, 0, 10, 18, 52] @ ifd @ [0, 0, 0, 0] @ [0])
          = fst (projr (WriteToFile le_debug ?w img None (Some 0)))"
    using e l lt by (intro exI [of _ ifd]) simp
  from WriteToFile_outcomes [OF ok0 std_sort_ok_le_debug, of ?w "Some []" "Some 7"] nw
  obtain img1 msg where
    n: "WriteToFile le_debug ?w ?i0 (Some []) (Some 7) = Inr (None, img1, Some msg, Some 7)"
    by auto
  from s obtain ifd where s1: "length ifd = 50"
    and s2: "Some ([77, 77, 0, 42, 0, 0, 0, 10, 18, 52] @ ifd @ [0, 0, 0, 0] @ [0])
          = fst (projr (WriteToFile le_debug ?w img None (Some 0)))"
    by blast
  have first: "\<exists>log img ifd.
        run le_debug ?i0 ?calls = Inr (log, img)
      \<and> image_ok le_debug img \<and> writable img
      \<and> WriteToFile le_debug ?w img None (Some 0) = Inr (Some (?bytes @ [0]), img, None, Some 64)
      \<and> length ifd = 50
      \<and> Some ([77, 77, 0, 42, 0, 0, 0, 10, 18, 52] @ ifd @ [0, 0, 0, 0] @ [0])
          = fst (projr (WriteToFile le_debug ?w img None (Some 0)))"
    using r ok wr o s1 s2 by blast
  have last: "\<exists>img' msg.
        WriteToFile le_debug ?w ?i0 (Some []) (Some 7) = Inr (None, img', Some msg, Some 7)"
    using n by blast
  show ?thesis
    using std_sort_ok_le_debug first ok0 nw last by blast
qed

text \<open>
  C7 as stated fails: the claim speaks of every call, and a call with a null \<open>count\<close> on a
  writable image is neither of its two outcomes. \<open>SetSamplesPerPixel(1)\<close>,
  \<open>SetBitsPerSample()\<close> and \<open>SetImageData\<close> of two bytes all return true; on the image they
  leave, \<open>WriteToFile(image, nullptr, nullptr)\<close> passes every write step and then stores
  through the null \<open>count\<close>.
\<close>

theorem WriteToFile_null_count_counterexample:
  "(case run le_debug (DNGImage_new le_debug)
           [CallSetSamplesPerPixel 1, CallSetBitsPerSample, CallSetImageData [0x34, 0x12]] of
      Inr (log, img) \<Rightarrow>
        map snd log = [True, True, True] \<and> writable img
        \<and> WriteToFile le_debug (DNGWriter_new le_debug True) img None None = Inl NullDereference
    | Inl _ \<Rightarrow> False)"
  by code_simp

lemma tag_len_ascii: "tag_len TIFF_ASCII cnt = unat cnt"
  by (simp add: tag_len_def TIFF_ASCII_def typesize_table_def)

lemma length_wraps: "(of_nat (length (replicate (2 ^ 32 + 1) CHR ''a'') + 1) :: 32 word) = 2"
  by simp

lemma SetSoftware_length_wraps:
  "\<exists>img'. SetSoftware pf (DNGImage_new pf) (replicate (2 ^ 32 + 1) CHR ''a'') = Inr (True, img')
      \<and> map count (ifd_tags img') = [2]"
  apply (simp add: SetSoftware_def write_tag_def WriteTIFFTag_def tag_len_ascii c_str_def DNGImage_new_def Let_def)
  done


lemma length_c_str [simp]: "length (c_str s) = Suc (length s)"
  by (simp add: c_str_def)

lemma count_of_length:
  assumes "length s + 1 < 2 ^ 32"
  shows "unat (of_nat (length s + 1) :: 32 word) = length s + 1"
proof -
  have "unat (of_nat (length s + 1) :: 32 word) = (length s + 1) mod 2 ^ LENGTH(32)"
    by (rule unat_of_nat)
  also have "\<dots> = length s + 1"
    using assms by simp
  finally show ?thesis .
qed

lemma write_tag_ascii:
  assumes "length s + 1 < 2 ^ 32" "ndebug pf \<or> length s \<noteq> 2"
  shows "\<exists>v d. write_tag pf img tg TIFF_ASCII (of_nat (length s + 1)) (c_str s) [] =
           Inr (True, img\<lparr>ifd_tags := ifd_tags img @
                          [\<lparr>tag = tg, type = TIFF_ASCII, count = of_nat (length s + 1),
                            offset_or_value = v\<rparr>],
                        data_os := data_os img @ d,
                        num_fields := num_fields img + 1\<rparr>)
         \<and> (if 4 < length s + 1
             then d = c_str s \<and> v = of_nat (length (data_os img)) + of_nat kHeaderSize
             else d = [])"
proof -
  have len: "tag_len TIFF_ASCII (of_nat (length s + 1)) = length s + 1"
    using count_of_length [OF assms(1)] by (simp only: tag_len_ascii)
  consider (big) "4 < length s + 1" | (one) "length s + 1 = 1" | (two) "length s + 1 = 2"
    | (three) "length s + 1 = 3" | (four) "length s + 1 = 4"
    by linarith
  then show ?thesis
  proof cases
    case big
    then show ?thesis
      unfolding write_tag_def WriteTIFFTag_def Let_def len
      by (intro exI [of _ "of_nat (length (data_os img)) + of_nat kHeaderSize"] exI [of _ "c_str s"]) simp
  next
    case one
    then show ?thesis
      unfolding write_tag_def WriteTIFFTag_def Let_def len
      by (intro exI [of _ "[]"] exI) simp
  next
    case two
    then show ?thesis
      unfolding write_tag_def WriteTIFFTag_def Let_def len
      by (intro exI [of _ "[]"] exI) simp
  next
    case three
    then show ?thesis
      using assms(2) unfolding write_tag_def WriteTIFFTag_def Let_def len
      by (intro exI [of _ "[]"] exI) simp
  next
    case four
    then show ?thesis
      unfolding write_tag_def WriteTIFFTag_def Let_def len
      by (intro exI [of _ "[]"] exI) simp
  qed
qed


lemma count_checks:
  assumes "length s + 1 < 2 ^ 32"
  shows "((of_nat (length s + 1) :: 32 word) < 2) = (s = [])"
    and "((of_nat (length s + 1) :: 32 word) > 4096) = (4096 < length s + 1)"
    and "((of_nat (length s + 1) :: 32 word) > 1024 * 1024) = (1024 * 1024 < length s + 1)"
  using count_of_length [OF assms] by (auto simp only: word_less_nat_alt) simp_all

lemma SetSoftware_rejects:
  "length s + 1 < 2 ^ 32 \<Longrightarrow> s = [] \<or> 4096 < length s + 1 \<Longrightarrow> SetSoftware pf img s = Inr (False, img)"
  unfolding SetSoftware_def Let_def by (simp only: count_checks) auto

lemma SetSoftware_accepts:
  assumes "length s + 1 < 2 ^ 32" "s \<noteq> []" "length s + 1 \<le> 4096" "ndebug pf \<or> length s \<noteq> 2"
  shows "\<exists>v d. SetSoftware pf img s =
           Inr (True, img\<lparr>ifd_tags := ifd_tags img @
                          [\<lparr>tag = TIFFTAG_SOFTWARE, type = TIFF_ASCII, count = of_nat (length s + 1),
                            offset_or_value = v\<rparr>],
                        data_os := data_os img @ d,
                        num_fields := num_fields img + 1\<rparr>)
         \<and> (if 4 < length s + 1
             then d = c_str s \<and> v = of_nat (length (data_os img)) + of_nat kHeaderSize
             else d = [])"
proof -
  have "\<not> (of_nat (length s + 1) :: 32 word) < 2" "\<not> (of_nat (length s + 1) :: 32 word) > 4096"
    using assms(2,3) by (simp_all only: count_checks [OF assms(1)]) simp_all
  then have "SetSoftware pf img s =
      write_tag pf img TIFFTAG_SOFTWARE TIFF_ASCII (of_nat (length s + 1)) (c_str s) []"
    unfolding SetSoftware_def Let_def by (simp only: if_False)
  then show ?thesis
    using write_tag_ascii [OF assms(1) assms(4), of img TIFFTAG_SOFTWARE] by simp
qed

lemma SetImageDescription_rejects:
  "length s + 1 < 2 ^ 32 \<Longrightarrow> s = [] \<or> 1024 * 1024 < length s + 1 \<Longrightarrow> SetImageDescription pf img s = Inr (False, img)"
  unfolding SetImageDescription_def Let_def by (simp only: count_checks) auto

lemma SetImageDescription_accepts:
  assumes "length s + 1 < 2 ^ 32" "s \<noteq> []" "length s + 1 \<le> 1024 * 1024" "ndebug pf \<or> length s \<noteq> 2"
  shows "\<exists>v d. SetImageDescription pf img s =
           Inr (True, img\<lparr>ifd_tags := ifd_tags img @
                          [\<lparr>tag = TIFFTAG_IMAGEDESCRIPTION, type = TIFF_ASCII, count = of_nat (length s + 1),
                            offset_or_value = v\<rparr>],
                        data_os := data_os img @ d,
                        num_fields := num_fields img + 1\<rparr>)
         \<and> (if 4 < length s + 1
             then d = c_str s \<and> v = of_nat (length (data_os img)) + of_nat kHeaderSize
             else d = [])"
proof -
  have "\<not> (of_nat (length s + 1) :: 32 word) < 2" "\<not> (of_nat (length s + 1) :: 32 word) > 1024 * 1024"
    using assms(2,3) by (simp_all only: count_checks [OF assms(1)]) simp_all
  then have "SetImageDescription pf img s =
      write_tag pf img TIFFTAG_IMAGEDESCRIPTION TIFF_ASCII (of_nat (length s + 1)) (c_str s) []"
    unfolding SetImageDescription_def Let_def by (simp only: if_False)
  then show ?thesis
    using write_tag_ascii [OF assms(1) assms(4), of img TIFFTAG_IMAGEDESCRIPTION] by simp
qed

lemma SetUniqueCameraModel_rejects:
  "length s + 1 < 2 ^ 32 \<Longrightarrow> s = [] \<or> 1024 * 1024 < length s + 1 \<Longrightarrow> SetUniqueCameraModel pf img s = Inr (False, img)"
  unfolding SetUniqueCameraModel_def Let_def by (simp only: count_checks) auto

lemma SetUniqueCameraModel_accepts:
  assumes "length s + 1 < 2 ^ 32" "s \<noteq> []" "length s + 1 \<le> 1024 * 1024" "ndebug pf \<or> length s \<noteq> 2"
  shows "\<exists>v d. SetUniqueCameraModel pf img s =
           Inr (True, img\<lparr>ifd_tags := ifd_tags img @
                          [\<lparr>tag = TIFFTAG_UNIQUE_CAMERA_MODEL, type = TIFF_ASCII, count = of_nat (length s + 1),
                            offset_or_value = v\<rparr>],
                        data_os := data_os img @ d,
                        num_fields := num_fields img + 1\<rparr>)
         \<and> (if 4 < length s + 1
             then d = c_str s \<and> v = of_nat (length (data_os img)) + of_nat kHeaderSize
             else d = [])"
proof -
  have "\<not> (of_nat (length s + 1) :: 32 word) < 2" "\<not> (of_nat (length s + 1) :: 32 word) > 1024 * 1024"
    using assms(2,3) by (simp_all only: count_checks [OF assms(1)]) simp_all
  then have "SetUniqueCameraModel pf img s =
      write_tag pf img TIFFTAG_UNIQUE_CAMERA_MODEL TIFF_ASCII (of_nat (length s + 1)) (c_str s) []"
    unfolding SetUniqueCameraModel_def Let_def by (simp only: if_False)
  then show ?thesis
    using write_tag_ascii [OF assms(1) assms(4), of img TIFFTAG_UNIQUE_CAMERA_MODEL] by simp
qed

text \<open>
  C10: the claim holds for every string but those of exactly two characters (and those
  of 4 GiB and more, whose length does not fit \<open>unsigned int\<close>). For two characters the
  count is 3, a length \<open>WriteTIFFTag\<close> has no branch for: it reaches \<open>assert(0)\<close>. Each
  of the three setters aborts there on \<open>"ab"\<close>; with \<open>NDEBUG\<close> the setter returns true
  with a tag whose value is 0 and nothing written to the data stream, so the text is
  lost.
\<close>

theorem text_setters_two_characters:
  "SetSoftware le_debug (DNGImage_new le_debug) ''ab'' = Inl AssertionFailed
   \<and> SetImageDescription le_debug (DNGImage_new le_debug) ''ab'' = Inl AssertionFailed
   \<and> SetUniqueCameraModel le_debug (DNGImage_new le_debug) ''ab'' = Inl AssertionFailed
   \<and> SetSoftware le_release (DNGImage_new le_release) ''ab'' =
       Inr (True, (DNGImage_new le_release)
                    \<lparr>ifd_tags := [\<lparr>tag = TIFFTAG_SOFTWARE, type = TIFF_ASCII, count = 3,
                                   offset_or_value = 0\<rparr>],
                     num_fields := 1\<rparr>)"
  by (simp add: SetSoftware_def SetImageDescription_def SetUniqueCameraModel_def write_tag_def
        WriteTIFFTag_def tag_len_ascii c_str_def le_debug_def le_release_def DNGImage_new_def)


section \<open>Properties of the decoder\<close>

lemma adjacent_duplicate_sorted:
  "sorted ts \<Longrightarrow> adjacent_duplicate ts = (\<not> distinct ts)"
proof (induction ts rule: adjacent_duplicate.induct)
  case (1 a b ts)
  then have "sorted (b # ts)" and le: "a \<le> b" and all: "\<forall>x \<in> set ts. b \<le> x"
    by auto
  have "a \<in> set ts \<Longrightarrow> a = b \<or> b \<in> set ts"
    using le all by force
  then show ?case
    using 1 by auto
qed simp_all

lemma map_insort_key:
  "map f (insort_key f x xs) = insort (f x) (map f xs)"
  by (induction xs) simp_all

lemma map_sort_key:
  "map f (sort_key f xs) = sort (map f xs)"
  by (induction xs) (simp_all add: map_insort_key)

lemma reindexOffsets_frames:
  assumes "reindexOffsets file es r = Inr d"
  shows "mFrameList d = sort (map entry_timestamp (filter (\<lambda>e. entry_kind e = Frame) es))"
    and "distinct (map entry_timestamp (filter (\<lambda>e. entry_kind e = Frame) es))"
    and "mOffsets d = es" and "viaRecovery d = r" and "mFile d = file"
    and "mAudioOffsets d = filter (\<lambda>e. entry_kind e = Audio) es"
proof -
  let ?fr = "filter (\<lambda>e. entry_kind e = Frame) es"
  have s: "sorted (map entry_timestamp (sort_key entry_timestamp ?fr))"
    by (rule sorted_sort_key)
  from assms have nd: "\<not> adjacent_duplicate (map entry_timestamp (sort_key entry_timestamp ?fr))"
    and d: "d = \<lparr>mFile = file, mOffsets = es, mAudioOffsets = filter (\<lambda>e. entry_kind e = Audio) es,
                   mFrameOffsetMap = map (\<lambda>e. (entry_timestamp e, e)) (sort_key entry_timestamp ?fr),
                   mFrameList = map entry_timestamp (sort_key entry_timestamp ?fr),
                   viaRecovery = r\<rparr>"
    by (auto simp add: reindexOffsets_def Let_def split: if_splits)
  from nd s have "distinct (map entry_timestamp (sort_key entry_timestamp ?fr))"
    by (simp add: adjacent_duplicate_sorted)
  then show "distinct (map entry_timestamp ?fr)"
    by (simp add: map_sort_key)
  show "mFrameList d = sort (map entry_timestamp ?fr)"
    by (simp add: d map_sort_key)
  show "mOffsets d = es" "viaRecovery d = r" "mFile d = file"
    "mAudioOffsets d = filter (\<lambda>e. entry_kind e = Audio) es"
    by (simp_all add: d)
qed

lemma reindexOffsets_duplicate:
  assumes "\<not> distinct (map entry_timestamp (filter (\<lambda>e. entry_kind e = Frame) es))"
  shows "reindexOffsets file es r = Inl CorruptContainer"
proof -
  let ?fr = "filter (\<lambda>e. entry_kind e = Frame) es"
  have "sorted (map entry_timestamp (sort_key entry_timestamp ?fr))"
    by (rule sorted_sort_key)
  moreover have "\<not> distinct (map entry_timestamp (sort_key entry_timestamp ?fr))"
    using assms by (simp add: map_sort_key)
  ultimately have "adjacent_duplicate (map entry_timestamp (sort_key entry_timestamp ?fr))"
    by (simp add: adjacent_duplicate_sorted)
  then show ?thesis
    by (simp add: reindexOffsets_def Let_def)
qed

lemma open_container_Inr:
  assumes "open_container fmt h = Inr d"
  shows "\<exists>file es r. h = Some file \<and> build_index fmt file = (es, r)
           \<and> reindexOffsets file es r = Inr d"
  using assms
  by (auto simp add: open_container_def split: option.splits if_splits prod.splits)

text \<open>
  C2: when \<open>open\<close> succeeds, by the fast path or by the recovery path, the list that
  \<open>getFrames\<close> returns is strictly ascending, so without duplicates, and holds exactly
  the timestamps of the Frame entries of the offset table. When the entries that the index
  builder found hold two Frame entries with one timestamp, \<open>open\<close> fails with
  \<open>CorruptContainer\<close>: no decoder is returned that keeps one of the two.
\<close>

theorem getFrames_strictly_ascending:
  "(open_container fmt h = Inr d \<longrightarrow>
      sorted_wrt (<) (getFrames d) \<and> distinct (getFrames d)
      \<and> set (getFrames d) = entry_timestamp ` {e \<in> set (mOffsets d). entry_kind e = Frame})
   \<and> (\<forall>file es r.
        h = Some file \<and> header_size fmt \<le> length file
        \<and> header_ok fmt (take (header_size fmt) file)
        \<and> build_index fmt file = (es, r)
        \<and> \<not> distinct (map entry_timestamp (filter (\<lambda>e. entry_kind e = Frame) es))
        \<longrightarrow> open_container fmt h = Inl CorruptContainer)"
proof (intro conjI impI allI)
  assume "open_container fmt h = Inr d"
  then obtain f es r where re: "reindexOffsets f es r = Inr d"
    using open_container_Inr by blast
  let ?ts = "map entry_timestamp (filter (\<lambda>e. entry_kind e = Frame) es)"
  have fl: "getFrames d = sort ?ts" and di: "distinct ?ts" and mo: "mOffsets d = es"
    using reindexOffsets_frames [OF re] by (simp_all add: getFrames_def)
  show "sorted_wrt (<) (getFrames d)"
    using di by (simp add: fl strict_sorted_iff)
  show "distinct (getFrames d)"
    using di by (simp add: fl)
  show "set (getFrames d) = entry_timestamp ` {e \<in> set (mOffsets d). entry_kind e = Frame}"
    by (auto simp add: fl mo)
next
  fix f es r
  assume a: "h = Some f \<and> header_size fmt \<le> length f
        \<and> header_ok fmt (take (header_size fmt) f)
        \<and> build_index fmt f = (es, r)
        \<and> \<not> distinct (map entry_timestamp (filter (\<lambda>e. entry_kind e = Frame) es))"
  then have ne: "es \<noteq> []"
    by auto
  from a have "reindexOffsets f es r = Inl CorruptContainer"
    by (simp add: reindexOffsets_duplicate)
  with a ne show "open_container fmt h = Inl CorruptContainer"
    by (simp add: open_container_def)
qed

theorem getFrames_strictly_ascending_witness:
  "(\<exists>d. open_container demo_format (Some demo_file) = Inr d \<and> viaRecovery d
        \<and> getFrames d = [1, 2] \<and> sorted_wrt (<) (getFrames d))
   \<and> (\<exists>d. open_container demo_format (Some demo_file_final) = Inr d \<and> \<not> viaRecovery d
        \<and> getFrames d = [1, 2] \<and> sorted_wrt (<) (getFrames d))
   \<and> (\<exists>es. fst (build_index demo_format demo_file_duplicate) = es
        \<and> \<not> distinct (map entry_timestamp (filter (\<lambda>e. entry_kind e = Frame) es))
        \<and> open_container demo_format (Some demo_file_duplicate) = Inl CorruptContainer)"
proof -
  have "(case open_container demo_format (Some demo_file) of
          Inr d \<Rightarrow> getFrames d = [1, 2] \<and> viaRecovery d | Inl _ \<Rightarrow> False)"
    by code_simp
  then obtain d1 where d1: "open_container demo_format (Some demo_file) = Inr d1"
      "getFrames d1 = [1, 2]" "viaRecovery d1"
    by (auto split: sum.splits)
  have "(case open_container demo_format (Some demo_file_final) of
          Inr d \<Rightarrow> getFrames d = [1, 2] \<and> \<not> viaRecovery d | Inl _ \<Rightarrow> False)"
    by code_simp
  then obtain d2 where d2: "open_container demo_format (Some demo_file_final) = Inr d2"
      "getFrames d2 = [1, 2]" "\<not> viaRecovery d2"
    by (auto split: sum.splits)
  let ?es = "[\<lparr>entry_offset = 6, entry_size = 1, entry_kind = Frame, entry_codec = 0,
                 entry_timestamp = 2\<rparr>,
              \<lparr>entry_offset = 11, entry_size = 1, entry_kind = Frame, entry_codec = 0,
                 entry_timestamp = 2\<rparr>]"
  have es: "fst (build_index demo_format demo_file_duplicate) = ?es"
    by code_simp
  have hd: "header_size demo_format \<le> length demo_file_duplicate
      \<and> header_ok demo_format (take (header_size demo_format) demo_file_duplicate)"
    by (simp add: demo_format_def demo_file_duplicate_def)
  have nd: "\<not> distinct (map entry_timestamp (filter (\<lambda>e. entry_kind e = Frame) ?es))"
    by simp
  have bi: "build_index demo_format demo_file_duplicate
      = (?es, snd (build_index demo_format demo_file_duplicate))"
    using es by (metis prod.collapse)
  have c: "open_container demo_format (Some demo_file_duplicate) = Inl CorruptContainer"
    using getFrames_strictly_ascending [of demo_format "Some demo_file_duplicate" d1] hd nd bi
    by blast
  show ?thesis
    using getFrames_strictly_ascending [of demo_format "Some demo_file" d1]
          getFrames_strictly_ascending [of demo_format "Some demo_file_final" d2]
          d1 d2 es nd c
    by auto
qed






end
